theory Spec2Isabelle
  imports Main "HOL-Library.AList" "HOL-Library.Sublist"
begin

section \<open>The resumable task broker of backend/utils/sse/sse.go\<close>

text \<open>
  The broker keeps a registry of task records, streams the progress of a background
  work function to the attached consumers and buffers it while nobody is attached.
  The embedding follows the Go source: a \<open>*TaskInfo\<close> is an address into a store of
  task objects, a channel is an address into a store of channel states, the registry
  and the subscriber map are association lists (the list order stands for the order in
  which one \<open>range\<close> over the Go map visits the entries), and every goroutine is a
  function from state to state that takes one step of its body at a time (for the
  listener and the forwarder one channel operation or one critical section).  What the environment decides is an argument: the reading of
  \<open>time.Now()\<close>, whether the caller's context is cancelled, and which ready case a
  \<open>select\<close> takes when several are ready.
\<close>

subsection \<open>Errors, statuses and outcomes\<close>

datatype error = ErrTaskNotFound | ErrTaskNotRunning | ErrTaskExpired | CtxErr

text \<open>\<open>type TaskStatus string\<close>: any string can be passed where a status is expected.\<close>

type_synonym TaskStatus = string

definition TaskStatusRunning :: TaskStatus where
  "TaskStatusRunning = ''running''"

definition TaskStatusCompleted :: TaskStatus where
  "TaskStatusCompleted = ''completed''"

definition TaskStatusFailed :: TaskStatus where
  "TaskStatusFailed = ''failed''"

definition TaskStatusCancelled :: TaskStatus where
  "TaskStatusCancelled = ''cancelled''"

lemmas status_defs =
  TaskStatusRunning_def TaskStatusCompleted_def TaskStatusFailed_def TaskStatusCancelled_def

text \<open>How a call ends: it returns its \<open>error\<close> value (\<open>None\<close> is \<open>nil\<close>) or it panics.\<close>

datatype outcome = Returned "error option" | Panicked

subsection \<open>Buffered channels\<close>

record 'a chan =
  chBuf :: "'a list"
  chCap :: nat
  chClosed :: bool

definition makeChan :: "nat \<Rightarrow> 'a chan" where
  "makeChan n = \<lparr>chBuf = [], chCap = n, chClosed = False\<rparr>"

text \<open>
  A send on a channel can proceed when the buffer has room; on a closed channel it
  proceeds too, by panicking.  \<open>chSend\<close> is the send that proceeds: \<open>None\<close> is the panic.
\<close>

definition sendReady :: "'a chan \<Rightarrow> bool" where
  "sendReady c = (chClosed c \<or> length (chBuf c) < chCap c)"

definition chSend :: "'a chan \<Rightarrow> 'a \<Rightarrow> 'a chan option" where
  "chSend c v = (if chClosed c then None else Some (c\<lparr>chBuf := chBuf c @ [v]\<rparr>))"

text \<open>\<open>close(c)\<close> panics on a closed channel; the source wraps every close in a
  function whose deferred \<open>recover()\<close> swallows that panic.\<close>

definition chClose :: "'a chan \<Rightarrow> 'a chan option" where
  "chClose c = (if chClosed c then None else Some (c\<lparr>chClosed := True\<rparr>))"

definition safeClose :: "'a chan \<Rightarrow> 'a chan" where
  "safeClose c = (case chClose c of None \<Rightarrow> c | Some c' \<Rightarrow> c')"

text \<open>
  \<open>select { case ch <- v: ... case <-ctx.Done(): ... default: ... }\<close>: among the ready
  cases one is taken (\<open>pick\<close> says whether it is the context's when both are ready),
  and \<open>default\<close> is taken only when none is ready.
\<close>

datatype choice = ChoseSend | ChoseDone | ChoseDefault

definition selectSendDone :: "bool \<Rightarrow> bool \<Rightarrow> bool \<Rightarrow> choice" where
  "selectSendDone canSend ctxDone pick =
     (if canSend \<and> ctxDone then (if pick then ChoseDone else ChoseSend)
      else if canSend then ChoseSend
      else if ctxDone then ChoseDone
      else ChoseDefault)"

subsection \<open>Task records and the manager\<close>

record 'a TaskInfo =
  TaskID :: string
  ResumeKey :: string
  Status :: TaskStatus
  Progress :: "'a option"
  CachedData :: "'a list"
  CreatedAt :: int
  UpdatedAt :: int
  ExpiresAt :: int
  DataChannel :: "nat option"
  Subscribers :: "(string \<times> nat) list"
  listenerStarted :: bool

text \<open>
  \<open>tasks\<close> maps a task id to the address of its record, \<open>objs\<close> is the store of
  records and \<open>chans\<close> the store of channels; \<open>nextObj\<close> and \<open>nextChan\<close> are the
  next fresh addresses.  \<open>asyncDone p\<close> says whether the independent context that
  \<open>ExecuteWithSSE\<close> created for the record at \<open>p\<close> has been cancelled, and
  \<open>asyncTimed p\<close> whether that context has a deadline.
\<close>

record 'a SSEManager =
  tasks :: "(string \<times> nat) list"
  defaultTTL :: int
  objs :: "nat \<Rightarrow> 'a TaskInfo"
  chans :: "nat \<Rightarrow> 'a chan"
  nextObj :: nat
  nextChan :: nat
  asyncDone :: "nat \<Rightarrow> bool"
  asyncTimed :: "nat \<Rightarrow> bool"

definition setObj :: "'a SSEManager \<Rightarrow> nat \<Rightarrow> 'a TaskInfo \<Rightarrow> 'a SSEManager" where
  "setObj m p t = m\<lparr>objs := (objs m)(p := t)\<rparr>"

definition setChan :: "'a SSEManager \<Rightarrow> nat \<Rightarrow> 'a chan \<Rightarrow> 'a SSEManager" where
  "setChan m a c = m\<lparr>chans := (chans m)(a := c)\<rparr>"

text \<open>
  The select with a send case, a \<open>ctx.Done()\<close> case and a \<open>default\<close>, on the
  channel variable \<open>ch\<close> (\<open>None\<close> is a \<open>nil\<close> channel, on which a send never
  proceeds).
\<close>

datatype 'a sel = Sent "'a SSEManager" | SendPanic | CtxDone | Default

definition selectSend :: "'a SSEManager \<Rightarrow> nat option \<Rightarrow> 'a \<Rightarrow> bool \<Rightarrow> bool \<Rightarrow> 'a sel" where
  "selectSend m ch v ctxDone pick =
     (case ch of
        None \<Rightarrow> (if ctxDone then CtxDone else Default)
      | Some a \<Rightarrow>
          (case selectSendDone (sendReady (chans m a)) ctxDone pick of
             ChoseSend \<Rightarrow>
               (case chSend (chans m a) v of
                  None \<Rightarrow> SendPanic
                | Some c \<Rightarrow> Sent (setChan m a c))
           | ChoseDone \<Rightarrow> CtxDone
           | ChoseDefault \<Rightarrow> Default))"

subsection \<open>UpdateProgress\<close>

definition UpdateProgress ::
  "'a SSEManager \<Rightarrow> bool \<Rightarrow> bool \<Rightarrow> int \<Rightarrow> string \<Rightarrow> 'a \<Rightarrow> outcome \<times> 'a SSEManager" where
  "UpdateProgress m ctxDone pick now taskID data =
     (case map_of (tasks m) taskID of
        None \<Rightarrow> (Returned (Some ErrTaskNotFound), m)
      | Some p \<Rightarrow>
          if Status (objs m p) \<noteq> TaskStatusRunning then (Returned (Some ErrTaskNotRunning), m)
          else
            let m1 = setObj m p ((objs m p)\<lparr>Progress := Some data, UpdatedAt := now\<rparr>)
            in (case selectSend m1 (DataChannel (objs m1 p)) data ctxDone pick of
                  Sent m2 \<Rightarrow> (Returned None, m2)
                | SendPanic \<Rightarrow> (Panicked, m1)
                | CtxDone \<Rightarrow> (Returned (Some CtxErr), m1)
                | Default \<Rightarrow> (Returned None, m1)))"

subsection \<open>CompleteTask and GetTaskInfo\<close>

definition closeAll :: "(string \<times> nat) list \<Rightarrow> (nat \<Rightarrow> 'a chan) \<Rightarrow> (nat \<Rightarrow> 'a chan)" where
  "closeAll subs ch = fold (\<lambda>(k, a) h. h(a := safeClose (h a))) subs ch"

text \<open>The context argument of \<open>CompleteTask\<close> is not used by its body and is left out.\<close>

definition CompleteTask :: "'a SSEManager \<Rightarrow> int \<Rightarrow> string \<Rightarrow> TaskStatus \<Rightarrow> 'a SSEManager" where
  "CompleteTask m now taskID status =
     (case map_of (tasks m) taskID of
        None \<Rightarrow> m
      | Some p \<Rightarrow>
          let task1 = (objs m p)\<lparr>Status := status, UpdatedAt := now, CachedData := []\<rparr>;
              chans1 = (case DataChannel task1 of
                          None \<Rightarrow> chans m
                        | Some a \<Rightarrow> (chans m)(a := safeClose (chans m a)));
              task2 = task1\<lparr>DataChannel := None\<rparr>;
              subscribers = Subscribers task2;
              task3 = task2\<lparr>Subscribers := []\<rparr>
          in m\<lparr>objs := (objs m)(p := task3), chans := closeAll subscribers chans1\<rparr>)"

text \<open>The copy that \<open>GetTaskInfo\<close> returns leaves the channel fields at their zero values.\<close>

definition GetTaskInfo :: "'a SSEManager \<Rightarrow> string \<Rightarrow> error + 'a TaskInfo" where
  "GetTaskInfo m taskID =
     (case map_of (tasks m) taskID of
        None \<Rightarrow> Inl ErrTaskNotFound
      | Some p \<Rightarrow>
          Inr \<lparr>TaskID = TaskID (objs m p), ResumeKey = ResumeKey (objs m p),
               Status = Status (objs m p), Progress = Progress (objs m p),
               CachedData = [], CreatedAt = CreatedAt (objs m p),
               UpdatedAt = UpdatedAt (objs m p), ExpiresAt = ExpiresAt (objs m p),
               DataChannel = None, Subscribers = [], listenerStarted = False\<rparr>)"

subsection \<open>The sweep\<close>



subsection \<open>ExecuteWithSSE\<close>

text \<open>\<open>fmt.Sprintf("%d", n)\<close>: the decimal rendering of an integer.\<close>

definition digitChar :: "nat \<Rightarrow> char" where
  "digitChar n = ''0123456789'' ! n"

fun showNat :: "nat \<Rightarrow> string" where
  "showNat n = (if n < 10 then [digitChar n] else showNat (n div 10) @ [digitChar (n mod 10)])"

declare showNat.simps [simp del]

definition showInt :: "int \<Rightarrow> string" where
  "showInt i = (if i < 0 then CHR ''-'' # showNat (nat (- i)) else showNat (nat i))"

text \<open>
  The goroutines that a call starts with \<open>safego.Go\<close>, each with the variables its
  closure captures: the task runner (record, task id), the listener that drains the
  record's data channel (record), and the forwarder of one attachment (record,
  subscriber id, subscriber channel, output channel).
\<close>

datatype goroutine =
  TaskRunner nat string
| Listener nat
| Forwarder nat string nat nat

datatype exec_result = ExecOk nat string | ExecErr error | ExecPanic

text \<open>
  The loop that sends the cached payloads to the new subscriber channel.  \<open>ctx i\<close>
  says whether the caller's context is cancelled when the select of iteration \<open>i\<close>
  is evaluated, \<open>pick i\<close> which ready case that select takes.
\<close>

fun flushCached ::
  "'a SSEManager \<Rightarrow> nat \<Rightarrow> (nat \<Rightarrow> bool) \<Rightarrow> (nat \<Rightarrow> bool) \<Rightarrow> nat \<Rightarrow> 'a list \<Rightarrow> outcome \<times> 'a SSEManager" where
  "flushCached m subChan ctx pick i [] = (Returned None, m)"
| "flushCached m subChan ctx pick i (cached # rest) =
     (case selectSend m (Some subChan) cached (ctx i) (pick i) of
        Sent m' \<Rightarrow> flushCached m' subChan ctx pick (Suc i) rest
      | SendPanic \<Rightarrow> (Panicked, m)
      | CtxDone \<Rightarrow> (Returned (Some CtxErr), m)
      | Default \<Rightarrow> flushCached m subChan ctx pick (Suc i) rest)"

definition allocChan :: "'a SSEManager \<Rightarrow> nat \<Rightarrow> nat \<times> 'a SSEManager" where
  "allocChan m n = (nextChan m, m\<lparr>chans := (chans m)(nextChan m := makeChan n), nextChan := Suc (nextChan m)\<rparr>)"

text \<open>Steps 3 to 6 of \<open>ExecuteWithSSE\<close>, on the record \<open>p\<close> found or created by steps 1 and 2.\<close>

definition attach ::
  "'a SSEManager \<Rightarrow> (nat \<Rightarrow> bool) \<Rightarrow> (nat \<Rightarrow> bool) \<Rightarrow> nat \<Rightarrow> string \<Rightarrow> bool \<Rightarrow> string \<Rightarrow> int
     \<Rightarrow> exec_result \<times> goroutine list \<times> 'a SSEManager" where
  "attach m ctx pick p taskID isNewTask subscriberID asyncTimeout =
     (let (subChan, m1) = allocChan m 100;
          m2 = setObj m1 p ((objs m1 p)\<lparr>Subscribers := AList.update subscriberID subChan (Subscribers (objs m1 p))\<rparr>);
          (outputChan, m3) = allocChan m2 100;
          (res, m4) = (if 0 < length (CachedData (objs m3 p))
                       then (case flushCached m3 subChan ctx pick 0 (CachedData (objs m3 p)) of
                               (Returned None, m') \<Rightarrow> (Returned None, setObj m' p ((objs m' p)\<lparr>CachedData := []\<rparr>))
                             | r \<Rightarrow> r)
                       else (Returned None, m3))
      in case res of
           Panicked \<Rightarrow> (ExecPanic, [], m4)
         | Returned (Some e) \<Rightarrow> (ExecErr e, [], m4)
         | Returned None \<Rightarrow>
             (if isNewTask then
                let m5 = m4\<lparr>asyncDone := (asyncDone m4)(p := False), asyncTimed := (asyncTimed m4)(p := 0 < asyncTimeout)\<rparr>
                in if \<not> listenerStarted (objs m5 p)
                   then (ExecOk outputChan taskID,
                         [TaskRunner p taskID, Listener p, Forwarder p subscriberID subChan outputChan],
                         setObj m5 p ((objs m5 p)\<lparr>listenerStarted := True\<rparr>))
                   else (ExecOk outputChan taskID,
                         [TaskRunner p taskID, Forwarder p subscriberID subChan outputChan], m5)
              else (ExecOk outputChan taskID, [Forwarder p subscriberID subChan outputChan], m4)))"

text \<open>Step 2: the new record, with the readings \<open>clock 0\<close> to \<open>clock 4\<close> of \<open>time.Now()\<close>.\<close>

definition newTask :: "(nat \<Rightarrow> int) \<Rightarrow> int \<Rightarrow> nat \<Rightarrow> 'a TaskInfo" where
  "newTask clock ttl dc =
     \<lparr>TaskID = ''task_'' @ showInt (clock 0), ResumeKey = ''resume_'' @ showInt (clock 1),
      Status = TaskStatusRunning, Progress = None, CachedData = [],
      CreatedAt = clock 2, UpdatedAt = clock 3, ExpiresAt = clock 4 + ttl,
      DataChannel = Some dc, Subscribers = [], listenerStarted = False\<rparr>"

definition createTask :: "'a SSEManager \<Rightarrow> (nat \<Rightarrow> int) \<Rightarrow> nat \<times> string \<times> 'a SSEManager" where
  "createTask m clock =
     (let (dc, m1) = allocChan m 100;
          task = newTask clock (defaultTTL m1) dc;
          p = nextObj m1
      in (p, TaskID task,
          m1\<lparr>objs := (objs m1)(p := task), nextObj := Suc p,
             tasks := AList.update (TaskID task) p (tasks m1)\<rparr>))"

text \<open>
  Step 1: the first record, in the order of the \<open>range\<close>, whose resume key is the
  one given.  In the resume branch \<open>clock 0\<close> is the reading that the expiry test uses.
\<close>

definition findByResumeKey :: "'a SSEManager \<Rightarrow> string \<Rightarrow> (string \<times> nat) option" where
  "findByResumeKey m resumeKey = find (\<lambda>(id, p). ResumeKey (objs m p) = resumeKey) (tasks m)"

definition ExecuteWithSSE ::
  "'a SSEManager \<Rightarrow> (nat \<Rightarrow> bool) \<Rightarrow> (nat \<Rightarrow> bool) \<Rightarrow> (nat \<Rightarrow> int) \<Rightarrow> string \<Rightarrow> string \<Rightarrow> int
     \<Rightarrow> exec_result \<times> goroutine list \<times> 'a SSEManager" where
  "ExecuteWithSSE m ctx pick clock resumeKey subscriberID asyncTimeout =
     (case (if resumeKey \<noteq> [] then findByResumeKey m resumeKey else None) of
        Some (taskID, p) \<Rightarrow>
          if ExpiresAt (objs m p) < clock 0 then (ExecErr ErrTaskExpired, [], m)
          else if Status (objs m p) \<noteq> TaskStatusRunning then (ExecErr ErrTaskNotRunning, [], m)
          else attach m ctx pick p taskID False subscriberID asyncTimeout
      | None \<Rightarrow>
          (let (p, taskID, m1) = createTask m clock
           in attach m1 ctx pick p taskID True subscriberID asyncTimeout))"

subsection \<open>The goroutines\<close>

text \<open>
  \<open>safego.Go\<close> runs a function in a goroutine under a deferred \<open>Recovery\<close>, which
  logs a panic and drops it: the goroutine ends, the process goes on.
\<close>

datatype 's ended = Finished 's | Panicking 's

definition Recovery :: "'s ended \<Rightarrow> 's" where
  "Recovery e = (case e of Finished s \<Rightarrow> s | Panicking s \<Rightarrow> s)"

definition Go :: "('s \<Rightarrow> 's ended) \<Rightarrow> 's \<Rightarrow> 's" where
  "Go fn s = Recovery (fn s)"

definition cancel :: "'a SSEManager \<Rightarrow> nat \<Rightarrow> 'a SSEManager" where
  "cancel m p = m\<lparr>asyncDone := (asyncDone m)(p := True)\<rparr>"

text \<open>
  The task runner, from the moment \<open>asyncFunc\<close> ends with \<open>res\<close> (the calls of
  \<open>updateProgress\<close> that the work function made are steps of their own before it).
  The deferred \<open>cancel()\<close> runs in every case; the two calls of \<open>CompleteTask\<close> are
  in the code after \<open>asyncFunc\<close> returns.
\<close>

definition taskRunner :: "int \<Rightarrow> nat \<Rightarrow> string \<Rightarrow> outcome \<Rightarrow> 'a SSEManager \<Rightarrow> 'a SSEManager ended" where
  "taskRunner now p taskID res m =
     (case res of
        Panicked \<Rightarrow> Panicking (cancel m p)
      | Returned (Some e) \<Rightarrow> Finished (cancel (CompleteTask m now taskID TaskStatusFailed) p)
      | Returned None \<Rightarrow> Finished (cancel (CompleteTask m now taskID TaskStatusCompleted) p))"

text \<open>
  The closure \<open>updateProgress\<close> that \<open>ExecuteWithSSE\<close> hands to the work function
  (lines 257 to 259): \<open>UpdateProgress\<close> with \<open>ctx\<close>, the context of the call that
  created the task, and not with the independent context.  \<open>callerDone\<close> says whether
  that context is cancelled.
\<close>

definition updateProgress ::
  "'a SSEManager \<Rightarrow> bool \<Rightarrow> bool \<Rightarrow> int \<Rightarrow> string \<Rightarrow> 'a \<Rightarrow> outcome \<times> 'a SSEManager" where
  "updateProgress m callerDone pick now taskID data = UpdateProgress m callerDone pick now taskID data"

text \<open>
  The task runner with a work function that reports one payload and returns the error
  of \<open>updateProgress\<close> if there is one, \<open>nil\<close> otherwise, as the work functions of the
  README and of the package's tests do (\<open>if err := updateProgress(data); err != nil {
  return err }\<close>).
\<close>

definition reportThenReturn ::
  "'a SSEManager \<Rightarrow> bool \<Rightarrow> bool \<Rightarrow> int \<Rightarrow> nat \<Rightarrow> string \<Rightarrow> 'a \<Rightarrow> 'a SSEManager" where
  "reportThenReturn m callerDone pick now p taskID data =
     (case updateProgress m callerDone pick now taskID data of
        (res, m') \<Rightarrow> Go (taskRunner now p taskID res) m')"

text \<open>The deadline of the independent context passes, if it has one.\<close>

definition deadline :: "'a SSEManager \<Rightarrow> nat \<Rightarrow> 'a SSEManager" where
  "deadline m p = (if asyncTimed m p then cancel m p else m)"

text \<open>
  The forwarder of one attachment.  Its control state: about to copy the cache,
  replaying the copy, waiting on the subscriber channel, holding a payload to send,
  ended.  A step is \<open>None\<close> when the goroutine is blocked.
\<close>

datatype 'a fwd = FwdStart | FwdReplay "'a list" | FwdRecv | FwdSend 'a | FwdExit

text \<open>The deferred functions: deregister and close the subscriber channel if the
  subscriber id is still in the map, then close the output channel.\<close>

definition forwarderExit :: "'a SSEManager \<Rightarrow> nat \<Rightarrow> string \<Rightarrow> nat \<Rightarrow> nat \<Rightarrow> 'a SSEManager ended" where
  "forwarderExit m p subscriberID subChan outputChan =
     (let m1 = (case map_of (Subscribers (objs m p)) subscriberID of
                  None \<Rightarrow> m
                | Some c \<Rightarrow>
                    setChan (setObj m p ((objs m p)\<lparr>Subscribers := AList.delete subscriberID (Subscribers (objs m p))\<rparr>))
                      subChan (safeClose (chans m subChan)))
      in case chClose (chans m1 outputChan) of
           None \<Rightarrow> Panicking m1
         | Some c \<Rightarrow> Finished (setChan m1 outputChan c))"

text \<open>\<open>select { case outputChan <- data: ... case <-ctx.Done(): return }\<close>, then \<open>next\<close>.\<close>

definition forwardSend ::
  "'a SSEManager \<Rightarrow> nat \<Rightarrow> string \<Rightarrow> nat \<Rightarrow> nat \<Rightarrow> bool \<Rightarrow> bool \<Rightarrow> 'a \<Rightarrow> 'a fwd \<Rightarrow> ('a fwd \<times> 'a SSEManager) option" where
  "forwardSend m p subscriberID subChan outputChan ctxDone pick data next =
     (if sendReady (chans m outputChan)
      then (if ctxDone \<and> pick
            then Some (FwdExit, Go (\<lambda>s. forwarderExit s p subscriberID subChan outputChan) m)
            else (case chSend (chans m outputChan) data of
                    None \<Rightarrow> Some (FwdExit, Go (\<lambda>s. forwarderExit s p subscriberID subChan outputChan) m)
                  | Some c \<Rightarrow> Some (next, setChan m outputChan c)))
      else (if ctxDone
            then Some (FwdExit, Go (\<lambda>s. forwarderExit s p subscriberID subChan outputChan) m)
            else None))"

text \<open>A receive can proceed when the buffer holds a value or the channel is closed.\<close>

definition recvReady :: "'a chan \<Rightarrow> bool" where
  "recvReady c = (if chBuf c = [] then chClosed c else True)"

fun forwarderStep ::
  "'a SSEManager \<Rightarrow> nat \<Rightarrow> string \<Rightarrow> nat \<Rightarrow> nat \<Rightarrow> bool \<Rightarrow> bool \<Rightarrow> 'a fwd \<Rightarrow> ('a fwd \<times> 'a SSEManager) option" where
  "forwarderStep m p sid subChan outputChan ctxDone pick FwdStart =
     Some (FwdReplay (CachedData (objs m p)), m)"
| "forwarderStep m p sid subChan outputChan ctxDone pick (FwdReplay []) = Some (FwdRecv, m)"
| "forwarderStep m p sid subChan outputChan ctxDone pick (FwdReplay (d # ds)) =
     forwardSend m p sid subChan outputChan ctxDone pick d (FwdReplay ds)"
| "forwarderStep m p sid subChan outputChan ctxDone pick FwdRecv =
     (if recvReady (chans m subChan)
      then (if ctxDone \<and> pick
            then Some (FwdExit, Go (\<lambda>s. forwarderExit s p sid subChan outputChan) m)
            else (case chBuf (chans m subChan) of
                    [] \<Rightarrow> Some (FwdExit, Go (\<lambda>s. forwarderExit s p sid subChan outputChan) m)
                  | d # ds \<Rightarrow> Some (FwdSend d, setChan m subChan ((chans m subChan)\<lparr>chBuf := ds\<rparr>))))
      else (if ctxDone
            then Some (FwdExit, Go (\<lambda>s. forwarderExit s p sid subChan outputChan) m)
            else None))"
| "forwarderStep m p sid subChan outputChan ctxDone pick (FwdSend d) =
     forwardSend m p sid subChan outputChan ctxDone pick d FwdRecv"
| "forwarderStep m p sid subChan outputChan ctxDone pick FwdExit = None"

text \<open>
  The caller reading the channel that \<open>ExecuteWithSSE\<close> returned: \<open>None\<close> when the
  receive blocks, otherwise the value received (\<open>None\<close> when the channel is closed and
  drained) and the new state.
\<close>

definition consumerRecv :: "'a SSEManager \<Rightarrow> nat \<Rightarrow> ('a option \<times> 'a SSEManager) option" where
  "consumerRecv m outputChan =
     (case chBuf (chans m outputChan) of
        [] \<Rightarrow> (if chClosed (chans m outputChan) then Some (None, m) else None)
      | d # ds \<Rightarrow> Some (Some d, setChan m outputChan ((chans m outputChan)\<lparr>chBuf := ds\<rparr>)))"

text \<open>
  The listener of a record.  Its control state: waiting at the select; holding a
  payload that it has received from the data channel; holding a payload and the
  subscriber channels of its snapshot of the subscriber map to which it has yet to send;
  holding a payload for the buffer, the snapshot having been empty; ended.  Each step is
  one channel operation or one critical section of the source: the receive (lines 282
  to 285; the closing of the data channel ends the goroutine, and so does the
  cancellation of the independent context, \<open>pick\<close> saying whether it is taken when the
  data channel is ready too), the snapshot under the read lock (lines 287 to 293), one
  send to a subscriber channel of the snapshot (lines 297 to 302; a full channel is
  skipped, a send on a closed channel panics and ends the goroutine), the append to the
  buffer under the write lock (lines 306 to 308).  Steps of other goroutines can fall
  between any two of them.  The snapshot is sent to in the order of the association
  list.  A step is \<open>None\<close> when the goroutine is blocked or has ended.
\<close>

datatype 'a lpc = LWait | LGot 'a | LSend 'a "(string \<times> nat) list" | LCache 'a | LEnd

fun listenerStep :: "'a SSEManager \<Rightarrow> nat \<Rightarrow> bool \<Rightarrow> 'a lpc \<Rightarrow> ('a lpc \<times> 'a SSEManager) option" where
  "listenerStep m p pick LWait =
     (case DataChannel (objs m p) of
        None \<Rightarrow> (if asyncDone m p then Some (LEnd, m) else None)
      | Some a \<Rightarrow>
          (if recvReady (chans m a)
           then (if asyncDone m p \<and> pick then Some (LEnd, m)
                 else (case chBuf (chans m a) of
                         [] \<Rightarrow> Some (LEnd, m)
                       | d # ds \<Rightarrow> Some (LGot d, setChan m a ((chans m a)\<lparr>chBuf := ds\<rparr>))))
           else (if asyncDone m p then Some (LEnd, m) else None)))"
| "listenerStep m p pick (LGot d) =
     (if 0 < length (Subscribers (objs m p))
      then Some (LSend d (Subscribers (objs m p)), m)
      else Some (LCache d, m))"
| "listenerStep m p pick (LSend d []) = Some (LWait, m)"
| "listenerStep m p pick (LSend d ((k, a) # rest)) =
     (if sendReady (chans m a)
      then (case chSend (chans m a) d of
              None \<Rightarrow> Some (LEnd, m)
            | Some c \<Rightarrow> Some (LSend d rest, setChan m a c))
      else Some (LSend d rest, m))"
| "listenerStep m p pick (LCache d) =
     Some (LWait, setObj m p ((objs m p)\<lparr>CachedData := CachedData (objs m p) @ [d]\<rparr>))"
| "listenerStep m p pick LEnd = None"

text \<open>The listener takes up to \<open>n\<close> steps in a row, its independent context not being
  taken by the select.\<close>

fun listenerSteps :: "nat \<Rightarrow> 'a SSEManager \<Rightarrow> nat \<Rightarrow> 'a lpc \<Rightarrow> 'a lpc \<times> 'a SSEManager" where
  "listenerSteps 0 m p pc = (pc, m)"
| "listenerSteps (Suc n) m p pc =
     (case listenerStep m p False pc of
        None \<Rightarrow> (pc, m)
      | Some (pc', m') \<Rightarrow> listenerSteps n m' p pc')"

subsection \<open>NewSSEManager\<close>

text \<open>The stores of a new manager hold zero values at every address.\<close>

definition zeroTask :: "'a TaskInfo" where
  "zeroTask = \<lparr>TaskID = [], ResumeKey = [], Status = [], Progress = None, CachedData = [],
               CreatedAt = 0, UpdatedAt = 0, ExpiresAt = 0, DataChannel = None,
               Subscribers = [], listenerStarted = False\<rparr>"

definition hour :: int where
  "hour = 3600 * 1000000000"

definition NewSSEManager :: "int \<Rightarrow> 'a SSEManager" where
  "NewSSEManager ttl =
     \<lparr>tasks = [], defaultTTL = (if ttl \<le> 0 then 1 * hour else ttl),
      objs = (\<lambda>p. zeroTask), chans = (\<lambda>a. makeChan 0), nextObj = 0, nextChan = 0,
      asyncDone = (\<lambda>p. False), asyncTimed = (\<lambda>p. False)\<rparr>"

subsection \<open>Concrete runs\<close>

text \<open>Environments: a context that is never cancelled and one that is cancelled from
  the start, a scheduler that takes the send and one that takes the cancellation, a
  clock that stands still.\<close>

definition ctxLive :: "nat \<Rightarrow> bool" where
  "ctxLive i = False"

definition ctxCancelled :: "nat \<Rightarrow> bool" where
  "ctxCancelled i = True"

definition pickSend :: "nat \<Rightarrow> bool" where
  "pickSend i = False"

definition pickDone :: "nat \<Rightarrow> bool" where
  "pickDone i = True"

definition clockAt :: "int \<Rightarrow> nat \<Rightarrow> int" where
  "clockAt t i = t"

definition st0 :: "nat SSEManager" where
  "st0 = NewSSEManager 0"

text \<open>\<open>st1\<close>: a first caller \<open>c1\<close> has created the task \<open>task_7\<close> (record 0, data
  channel 0, subscriber channel 1, output channel 2).\<close>

definition st1 :: "nat SSEManager" where
  "st1 = snd (snd (ExecuteWithSSE st0 ctxLive pickSend (clockAt 7) [] ''c1'' 0))"

text \<open>A sequence of calls of \<open>CompleteTask\<close> on one task id, each with its time and
  final status.\<close>

definition completeCalls :: "'a SSEManager \<Rightarrow> string \<Rightarrow> (int \<times> TaskStatus) list \<Rightarrow> 'a SSEManager" where
  "completeCalls m taskID calls = fold (\<lambda>(now, status) s. CompleteTask s now taskID status) calls m"

text \<open>The state after steps 3 and 4 up to the loop: two fresh channels, the subscriber
  registered.\<close>

definition registered :: "'a SSEManager \<Rightarrow> nat \<Rightarrow> string \<Rightarrow> 'a SSEManager" where
  "registered m p sid =
     m\<lparr>objs := (objs m)(p := (objs m p)\<lparr>Subscribers :=
                 AList.update sid (nextChan m) (Subscribers (objs m p))\<rparr>),
       chans := (chans m)(nextChan m := makeChan 100, Suc (nextChan m) := makeChan 100),
       nextChan := Suc (Suc (nextChan m))\<rparr>"

text \<open>\<open>st1done\<close>: \<open>task_7\<close> has been completed.  \<open>stSwept\<close>: the sweep has then
  taken its record out of the registry.\<close>

definition st1done :: "nat SSEManager" where
  "st1done = CompleteTask st1 8 ''task_7'' TaskStatusCompleted"


text \<open>\<open>st2\<close>: the context of \<open>c1\<close> was cancelled and its forwarder has ended.
  \<open>st3\<close>: the work function has reported the payload 41.  \<open>st4\<close>: the listener has
  taken it from the data channel (three steps); nobody is attached, so it is in the cache.\<close>

definition st2 :: "nat SSEManager" where
  "st2 = Go (\<lambda>s. forwarderExit s 0 ''c1'' 1 2) st1"

definition st3 :: "nat SSEManager" where
  "st3 = snd (UpdateProgress st2 False False 8 ''task_7'' 41)"

definition st4 :: "nat SSEManager" where
  "st4 = snd (listenerSteps 3 st3 0 LWait)"

text \<open>\<open>stBoth\<close>: from \<open>st4\<close> the caller \<open>c2\<close> has tried to resume with a cancelled
  context, and the call has returned the context's error.\<close>

definition stBoth :: "nat SSEManager" where
  "stBoth = snd (snd (ExecuteWithSSE st4 ctxCancelled pickDone (clockAt 9) ''resume_7'' ''c2'' 0))"

text \<open>The control states in which the forwarder is at a select.\<close>

fun atSelect :: "'a fwd \<Rightarrow> bool" where
  "atSelect (FwdReplay (d # ds)) = True"
| "atSelect FwdRecv = True"
| "atSelect (FwdSend d) = True"
| "atSelect pc = False"

subsection \<open>Runs of one attachment\<close>

text \<open>
  The steps that carry payloads to the caller of one attachment: a step of its forwarder
  (with the state of the caller's context and the choice of the select), the caller
  receiving from the output channel, a step of the record's listener (with the choice of
  its select).  A run records the control states of the forwarder and of the listener
  and the payloads that the caller has received.  A goroutine that is blocked or has
  ended takes no step.
\<close>

datatype event =
  Forward bool bool
| Receive
| Listen bool

record 'a run =
  rm :: "'a SSEManager"
  rpc :: "'a fwd"
  rlpc :: "'a lpc"
  received :: "'a list"

fun runStep :: "nat \<Rightarrow> string \<Rightarrow> nat \<Rightarrow> nat \<Rightarrow> event \<Rightarrow> 'a run \<Rightarrow> 'a run" where
  "runStep p sid sc oc (Forward cd pk) r =
     (case forwarderStep (rm r) p sid sc oc cd pk (rpc r) of
        None \<Rightarrow> r
      | Some (pc', m') \<Rightarrow> r\<lparr>rm := m', rpc := pc'\<rparr>)"
| "runStep p sid sc oc Receive r =
     (case consumerRecv (rm r) oc of
        None \<Rightarrow> r
      | Some (None, m') \<Rightarrow> r
      | Some (Some d, m') \<Rightarrow> r\<lparr>rm := m', received := received r @ [d]\<rparr>)"
| "runStep p sid sc oc (Listen pk) r =
     (case listenerStep (rm r) p pk (rlpc r) of
        None \<Rightarrow> r
      | Some (lpc', m') \<Rightarrow> r\<lparr>rm := m', rlpc := lpc'\<rparr>)"

definition runAll ::
  "nat \<Rightarrow> string \<Rightarrow> nat \<Rightarrow> nat \<Rightarrow> event list \<Rightarrow> 'a run \<Rightarrow> 'a run" where
  "runAll p sid sc oc evs r = fold (runStep p sid sc oc) evs r"

text \<open>The start of a run in the state \<open>m\<close> that \<open>ExecuteWithSSE\<close> returned: the
  forwarder has not started, the listener is in the control state \<open>lpc\<close>
  (in \<open>startRun\<close>, waiting at its select).\<close>

definition startRunAt :: "'a SSEManager \<Rightarrow> 'a lpc \<Rightarrow> 'a run" where
  "startRunAt m lpc = \<lparr>rm = m, rpc = FwdStart, rlpc = lpc, received = []\<rparr>"

definition startRun :: "'a SSEManager \<Rightarrow> 'a run" where
  "startRun m = startRunAt m LWait"

text \<open>A caller that keeps reading: the forwarder starts (two steps), then \<open>n\<close> times the
  forwarder takes a payload from the subscriber channel, sends it to the output channel,
  and the caller receives it.  The caller's context is not cancelled.\<close>

definition round :: "event list" where
  "round = [Forward False False, Forward False False, Receive]"

definition deliverSchedule :: "nat \<Rightarrow> event list" where
  "deliverSchedule n = Forward False False # Forward False False # concat (replicate n round)"

text \<open>The work function reports \<open>d\<close>, and the listener receives it from the data
  channel, takes its snapshot and stores the payload (three steps).\<close>

definition feed :: "string \<Rightarrow> nat \<Rightarrow> 'a SSEManager \<Rightarrow> 'a \<Rightarrow> 'a SSEManager" where
  "feed tid p m d = snd (listenerSteps 3 (snd (UpdateProgress m False False 8 tid d)) p LWait)"

text \<open>A registered running record with nobody attached and an empty, open data channel.\<close>

definition buffering :: "'a SSEManager \<Rightarrow> string \<Rightarrow> nat \<Rightarrow> nat \<Rightarrow> bool" where
  "buffering m tid p a =
     (map_of (tasks m) tid = Some p \<and> Status (objs m p) = TaskStatusRunning
      \<and> DataChannel (objs m p) = Some a \<and> chBuf (chans m a) = [] \<and> chClosed (chans m a) = False
      \<and> 0 < chCap (chans m a) \<and> Subscribers (objs m p) = [])"

text \<open>\<open>st101\<close>: after \<open>st2\<close> the work function has reported the 101 payloads 0 to 100
  with nobody attached.  \<open>st102\<close>: the caller \<open>c2\<close> has then resumed the task.\<close>

definition st101 :: "nat SSEManager" where
  "st101 = fold (\<lambda>d m. feed ''task_7'' 0 m d) [0..<101] st2"

definition st102 :: "nat SSEManager" where
  "st102 = snd (snd (ExecuteWithSSE st101 ctxLive pickSend (clockAt 9) ''resume_7'' ''c2'' 0))"

text \<open>
  An attach that falls between two steps of the listener.  \<open>stB1\<close>: from \<open>st4\<close> (the
  buffer holds 41, nobody is attached) the work function has reported 42.  \<open>stB2\<close>: the
  listener has received 42 from the data channel and taken its snapshot of the
  subscriber map, which is empty.  \<open>stB3\<close>: the caller \<open>c2\<close> has resumed the task
  (subscriber channel 3, output channel 4).  \<open>raceRun\<close>: the listener then takes its
  next step, the forwarder of \<open>c2\<close> takes five steps and \<open>c2\<close> receives twice.
\<close>

definition stB1 :: "nat SSEManager" where
  "stB1 = snd (UpdateProgress st4 False False 9 ''task_7'' 42)"

definition stB2 :: "nat SSEManager" where
  "stB2 = snd (listenerSteps 2 stB1 0 LWait)"

definition stB3 :: "nat SSEManager" where
  "stB3 = snd (snd (ExecuteWithSSE stB2 ctxLive pickSend (clockAt 10) ''resume_7'' ''c2'' 0))"

definition raceSchedule :: "event list" where
  "raceSchedule =
     [Listen False, Forward False False, Forward False False, Forward False False,
      Forward False False, Forward False False, Receive, Receive]"

definition raceRun :: "nat run" where
  "raceRun = runAll 0 ''c2'' 3 4 raceSchedule (startRunAt stB3 (LCache 42))"

text \<open>The forwarder is waiting, the output channel is empty, open and has room.\<close>

definition ready :: "'a run \<Rightarrow> nat \<Rightarrow> nat \<Rightarrow> bool" where
  "ready r sc oc =
     (rpc r = FwdRecv \<and> sc \<noteq> oc \<and> chBuf (chans (rm r) oc) = []
      \<and> chClosed (chans (rm r) oc) = False \<and> 0 < chCap (chans (rm r) oc))"

section \<open>Properties\<close>

subsection \<open>UpdateProgress\<close>

lemma UpdateProgress_unknown:
  "map_of (tasks m) tid = None \<Longrightarrow>
   UpdateProgress m ctxDone pick now tid d = (Returned (Some ErrTaskNotFound), m)"
  by (simp add: UpdateProgress_def)

lemma UpdateProgress_not_running:
  "map_of (tasks m) tid = Some p \<Longrightarrow> Status (objs m p) \<noteq> TaskStatusRunning \<Longrightarrow>
   UpdateProgress m ctxDone pick now tid d = (Returned (Some ErrTaskNotRunning), m)"
  by (simp add: UpdateProgress_def)

text \<open>The select, case by case on the state of the channel.\<close>

lemma selectSend_cases:
  "selectSend m ch v ctxDone pick =
     (case ch of
        None \<Rightarrow> (if ctxDone then CtxDone else Default)
      | Some a \<Rightarrow>
         (if chClosed (chans m a) then (if ctxDone \<and> pick then CtxDone else SendPanic)
          else if length (chBuf (chans m a)) < chCap (chans m a)
               then (if ctxDone \<and> pick then CtxDone
                     else Sent (setChan m a ((chans m a)\<lparr>chBuf := chBuf (chans m a) @ [v]\<rparr>)))
          else if ctxDone then CtxDone else Default))"
  by (simp add: selectSend_def selectSendDone_def sendReady_def chSend_def split: option.splits)

lemma UpdateProgress_running:
  assumes "map_of (tasks m) tid = Some p" "Status (objs m p) = TaskStatusRunning"
  shows "UpdateProgress m ctxDone pick now tid d =
     (let m1 = setObj m p ((objs m p)\<lparr>Progress := Some d, UpdatedAt := now\<rparr>)
      in case selectSend m1 (DataChannel (objs m p)) d ctxDone pick of
           Sent m2 \<Rightarrow> (Returned None, m2)
         | SendPanic \<Rightarrow> (Panicked, m1)
         | CtxDone \<Rightarrow> (Returned (Some CtxErr), m1)
         | Default \<Rightarrow> (Returned None, m1))"
  using assms by (simp add: UpdateProgress_def Let_def setObj_def)

text \<open>
  Claim C5.  \<open>UpdateProgress\<close> returns \<open>ErrTaskNotFound\<close> exactly when the task id is
  not in the registry, and \<open>ErrTaskNotRunning\<close> exactly when it is there with a status
  other than running.  When it returns \<open>nil\<close>, the payload is the record's progress,
  \<open>UpdatedAt\<close> is the time of the call, and the data channel holds the payload at its
  end if it had room and is unchanged if it was full (the event is dropped, the
  progress field still has it).  With a context that is not cancelled and an open data
  channel the call on a running task does return \<open>nil\<close>, whether the queue is full or not.
\<close>

theorem UpdateProgress_contract:
  "(fst (UpdateProgress m ctxDone pick now tid d) = Returned (Some ErrTaskNotFound)
      \<longleftrightarrow> map_of (tasks m) tid = None)
   \<and> (fst (UpdateProgress m ctxDone pick now tid d) = Returned (Some ErrTaskNotRunning)
      \<longleftrightarrow> (\<exists>p. map_of (tasks m) tid = Some p \<and> Status (objs m p) \<noteq> TaskStatusRunning))
   \<and> (\<forall>p. map_of (tasks m) tid = Some p
          \<and> fst (UpdateProgress m ctxDone pick now tid d) = Returned None \<longrightarrow>
        Progress (objs (snd (UpdateProgress m ctxDone pick now tid d)) p) = Some d
        \<and> UpdatedAt (objs (snd (UpdateProgress m ctxDone pick now tid d)) p) = now
        \<and> chans (snd (UpdateProgress m ctxDone pick now tid d)) =
            (case DataChannel (objs m p) of
               None \<Rightarrow> chans m
             | Some a \<Rightarrow>
                 if length (chBuf (chans m a)) < chCap (chans m a)
                 then (chans m)(a := (chans m a)\<lparr>chBuf := chBuf (chans m a) @ [d]\<rparr>)
                 else chans m))
   \<and> (\<forall>p a. map_of (tasks m) tid = Some p \<and> Status (objs m p) = TaskStatusRunning
          \<and> DataChannel (objs m p) = Some a \<and> \<not> chClosed (chans m a) \<and> \<not> ctxDone \<longrightarrow>
        fst (UpdateProgress m ctxDone pick now tid d) = Returned None)"
proof (cases "map_of (tasks m) tid")
  case None
  then show ?thesis by (simp add: UpdateProgress_unknown)
next
  case (Some p)
  show ?thesis
  proof (cases "Status (objs m p) = TaskStatusRunning")
    case False
    with Some show ?thesis by (simp add: UpdateProgress_not_running)
  next
    case True
    with Some show ?thesis
      by (auto simp: UpdateProgress_running selectSend_cases Let_def setObj_def setChan_def
               split: option.splits)
  qed
qed

theorem UpdateProgress_contract_witness:
  "map_of (tasks st1) ''task_7'' = Some 0
   \<and> fst (UpdateProgress st1 False False 9 ''task_7'' 5) = Returned None
   \<and> Progress (objs (snd (UpdateProgress st1 False False 9 ''task_7'' 5)) 0) = Some 5
   \<and> UpdatedAt (objs (snd (UpdateProgress st1 False False 9 ''task_7'' 5)) 0) = 9
   \<and> chBuf (chans (snd (UpdateProgress st1 False False 9 ''task_7'' 5)) 0) = [5]"
proof -
  have h1: "map_of (tasks st1) ''task_7'' = Some 0" by code_simp
  have h2: "fst (UpdateProgress st1 False False 9 ''task_7'' 5) = Returned None" by code_simp
  have h3: "DataChannel (objs st1 0) = Some 0" by code_simp
  have h4: "chBuf (chans st1 0) = []" by code_simp
  have h5: "chCap (chans st1 0) = 100" by code_simp
  from UpdateProgress_contract [of st1 False False 9 "''task_7''" 5] h1 h2
  have "Progress (objs (snd (UpdateProgress st1 False False 9 ''task_7'' 5)) 0) = Some 5
        \<and> UpdatedAt (objs (snd (UpdateProgress st1 False False 9 ''task_7'' 5)) 0) = 9
        \<and> chans (snd (UpdateProgress st1 False False 9 ''task_7'' 5)) =
            (case DataChannel (objs st1 0) of
               None \<Rightarrow> chans st1
             | Some a \<Rightarrow>
                 if length (chBuf (chans st1 a)) < chCap (chans st1 a)
                 then (chans st1)(a := (chans st1 a)\<lparr>chBuf := chBuf (chans st1 a) @ [5]\<rparr>)
                 else chans st1)"
    by blast
  with h1 h2 h3 h4 h5 show ?thesis by simp
qed

text \<open>
  Claim C10.  On a registered running task, a call with a cancelled context can
  return the context's error, which is neither \<open>ErrTaskNotFound\<close> nor
  \<open>ErrTaskNotRunning\<close> (it does whenever the select takes the cancellation); and
  whenever it returns that error, the record's progress and \<open>UpdatedAt\<close> have been
  written already.
\<close>

theorem UpdateProgress_cancelled_ctx:
  assumes "map_of (tasks m) tid = Some p" and "Status (objs m p) = TaskStatusRunning"
  shows "fst (UpdateProgress m True True now tid d) = Returned (Some CtxErr)
     \<and> CtxErr \<noteq> ErrTaskNotFound \<and> CtxErr \<noteq> ErrTaskNotRunning
     \<and> (\<forall>pick. fst (UpdateProgress m True pick now tid d) = Returned (Some CtxErr) \<longrightarrow>
          Progress (objs (snd (UpdateProgress m True pick now tid d)) p) = Some d
          \<and> UpdatedAt (objs (snd (UpdateProgress m True pick now tid d)) p) = now)"
  using assms
  by (auto simp: UpdateProgress_running selectSend_cases Let_def setObj_def setChan_def
               split: option.splits)

theorem UpdateProgress_cancelled_ctx_witness:
  "map_of (tasks st1) ''task_7'' = Some 0 \<and> Status (objs st1 0) = TaskStatusRunning
   \<and> fst (UpdateProgress st1 True True 9 ''task_7'' 5) = Returned (Some CtxErr)
   \<and> Progress (objs (snd (UpdateProgress st1 True True 9 ''task_7'' 5)) 0) = Some 5
   \<and> UpdatedAt (objs (snd (UpdateProgress st1 True True 9 ''task_7'' 5)) 0) = 9"
proof -
  have h1: "map_of (tasks st1) ''task_7'' = Some 0" by code_simp
  have h2: "Status (objs st1 0) = TaskStatusRunning" by code_simp
  from UpdateProgress_cancelled_ctx [OF h1 h2, of 9 5] h1 h2 show ?thesis by blast
qed

subsection \<open>Buffering while nobody is attached\<close>

lemma feed_buffering:
  assumes b: "buffering m tid p a"
  shows "buffering (feed tid p m d) tid p a
     \<and> CachedData (objs (feed tid p m d) p) = CachedData (objs m p) @ [d]
     \<and> tasks (feed tid p m d) = tasks m \<and> nextChan (feed tid p m d) = nextChan m
     \<and> ResumeKey (objs (feed tid p m d) p) = ResumeKey (objs m p)
     \<and> ExpiresAt (objs (feed tid p m d) p) = ExpiresAt (objs m p)"
proof -
  from b have t: "map_of (tasks m) tid = Some p" and s: "Status (objs m p) = TaskStatusRunning"
    by (simp_all add: buffering_def)
  show ?thesis
    using b
    by (simp add: feed_def buffering_def UpdateProgress_running [OF t s] selectSend_cases
          numeral_3_eq_3 recvReady_def Let_def setObj_def setChan_def)
qed

lemma feeds_buffering:
  assumes "buffering m tid p a"
  shows "buffering (fold (\<lambda>d s. feed tid p s d) ds m) tid p a
     \<and> CachedData (objs (fold (\<lambda>d s. feed tid p s d) ds m) p) = CachedData (objs m p) @ ds
     \<and> tasks (fold (\<lambda>d s. feed tid p s d) ds m) = tasks m
     \<and> nextChan (fold (\<lambda>d s. feed tid p s d) ds m) = nextChan m
     \<and> ResumeKey (objs (fold (\<lambda>d s. feed tid p s d) ds m) p) = ResumeKey (objs m p)
     \<and> ExpiresAt (objs (fold (\<lambda>d s. feed tid p s d) ds m) p) = ExpiresAt (objs m p)"
  using assms
proof (induction ds arbitrary: m)
  case Nil
  then show ?case by simp
next
  case (Cons d ds)
  note f = feed_buffering [OF Cons.prems, of d]
  from f have b: "buffering (feed tid p m d) tid p a" by simp
  from Cons.IH [OF b] f show ?case by simp
qed

text \<open>The work function reports \<open>d\<close> while nobody is attached, and the listener
  takes two steps: it holds \<open>d\<close> for the buffer and has not stored it yet.\<close>

lemma report_taken:
  assumes b: "buffering m tid p a"
  shows "fst (UpdateProgress m False False now tid d) = Returned None"
    and "fst (listenerSteps 2 (snd (UpdateProgress m False False now tid d)) p LWait) = LCache d"
    and "buffering (snd (listenerSteps 2 (snd (UpdateProgress m False False now tid d)) p LWait)) tid p a"
    and "CachedData (objs (snd (listenerSteps 2 (snd (UpdateProgress m False False now tid d)) p LWait)) p)
           = CachedData (objs m p)"
    and "tasks (snd (listenerSteps 2 (snd (UpdateProgress m False False now tid d)) p LWait)) = tasks m"
    and "nextChan (snd (listenerSteps 2 (snd (UpdateProgress m False False now tid d)) p LWait)) = nextChan m"
    and "ResumeKey (objs (snd (listenerSteps 2 (snd (UpdateProgress m False False now tid d)) p LWait)) p)
           = ResumeKey (objs m p)"
    and "ExpiresAt (objs (snd (listenerSteps 2 (snd (UpdateProgress m False False now tid d)) p LWait)) p)
           = ExpiresAt (objs m p)"
proof -
  from b have t: "map_of (tasks m) tid = Some p" and s: "Status (objs m p) = TaskStatusRunning"
    by (simp_all add: buffering_def)
  show "fst (UpdateProgress m False False now tid d) = Returned None"
    and "fst (listenerSteps 2 (snd (UpdateProgress m False False now tid d)) p LWait) = LCache d"
    and "buffering (snd (listenerSteps 2 (snd (UpdateProgress m False False now tid d)) p LWait)) tid p a"
    and "CachedData (objs (snd (listenerSteps 2 (snd (UpdateProgress m False False now tid d)) p LWait)) p)
           = CachedData (objs m p)"
    and "tasks (snd (listenerSteps 2 (snd (UpdateProgress m False False now tid d)) p LWait)) = tasks m"
    and "nextChan (snd (listenerSteps 2 (snd (UpdateProgress m False False now tid d)) p LWait)) = nextChan m"
    and "ResumeKey (objs (snd (listenerSteps 2 (snd (UpdateProgress m False False now tid d)) p LWait)) p)
           = ResumeKey (objs m p)"
    and "ExpiresAt (objs (snd (listenerSteps 2 (snd (UpdateProgress m False False now tid d)) p LWait)) p)
           = ExpiresAt (objs m p)"
    using b
    by (simp_all add: buffering_def UpdateProgress_running [OF t s] selectSend_cases
          numeral_2_eq_2 recvReady_def Let_def setObj_def setChan_def)
qed

text \<open>The states \<open>st2\<close> and \<open>st4\<close>.\<close>

lemma st2_buffering: "buffering st2 ''task_7'' 0 0"
  by code_simp

lemma st2_facts:
  "CachedData (objs st2 0) = []" "tasks st2 = [(''task_7'', 0)]" "nextChan st2 = 3"
  "ResumeKey (objs st2 0) = ''resume_7''" "ExpiresAt (objs st2 0) = 3600000000007"
  by code_simp+

lemma st4_feed: "st4 = feed ''task_7'' 0 st2 41"
  by (simp add: st4_def st3_def feed_def)

lemma st4_buffering: "buffering st4 ''task_7'' 0 0"
  using feed_buffering [OF st2_buffering, of 41] by (simp add: st4_feed)

lemma st4_facts:
  "CachedData (objs st4 0) = [41]" "tasks st4 = [(''task_7'', 0)]" "nextChan st4 = 3"
  "ResumeKey (objs st4 0) = ''resume_7''" "ExpiresAt (objs st4 0) = 3600000000007"
  "Subscribers (objs st4 0) = []" "Status (objs st4 0) = TaskStatusRunning"
  "DataChannel (objs st4 0) = Some 0" "chClosed (chans st4 0) = False"
  using feed_buffering [OF st2_buffering, of 41] st2_facts
  by (simp_all add: st4_feed buffering_def)

subsection \<open>ExecuteWithSSE: lookup by resume key\<close>

lemma find_SomeD: "find P xs = Some x \<Longrightarrow> x \<in> set xs \<and> P x"
  by (induction xs) (auto split: if_splits)

lemma findByResumeKey_Some:
  "findByResumeKey m rk = Some (tid, p) \<Longrightarrow> (tid, p) \<in> set (tasks m) \<and> ResumeKey (objs m p) = rk"
  unfolding findByResumeKey_def by (drule find_SomeD) simp

lemma findByResumeKey_None:
  "findByResumeKey m rk = None \<longleftrightarrow> (\<forall>(tid, p) \<in> set (tasks m). ResumeKey (objs m p) \<noteq> rk)"
  unfolding findByResumeKey_def by (auto simp: find_None_iff)

lemma ExecuteWithSSE_found:
  assumes "rk \<noteq> []" "findByResumeKey m rk = Some (tid, p)"
  shows "ExecuteWithSSE m ctx pick clock rk sid tmo =
     (if ExpiresAt (objs m p) < clock 0 then (ExecErr ErrTaskExpired, [], m)
      else if Status (objs m p) \<noteq> TaskStatusRunning then (ExecErr ErrTaskNotRunning, [], m)
      else attach m ctx pick p tid False sid tmo)"
  using assms by (simp add: ExecuteWithSSE_def)



lemma attach_no_cache:
  assumes "CachedData (objs m p) = []"
  shows "attach m ctx pick p tid isNew sid tmo =
    (let sc = nextChan m; oc = Suc (nextChan m); m3 = registered m p sid
     in if isNew then
          let m5 = m3\<lparr>asyncDone := (asyncDone m3)(p := False), asyncTimed := (asyncTimed m3)(p := 0 < tmo)\<rparr>
          in if \<not> listenerStarted (objs m p)
             then (ExecOk oc tid, [TaskRunner p tid, Listener p, Forwarder p sid sc oc],
                   setObj m5 p ((objs m5 p)\<lparr>listenerStarted := True\<rparr>))
             else (ExecOk oc tid, [TaskRunner p tid, Forwarder p sid sc oc], m5)
        else (ExecOk oc tid, [Forwarder p sid sc oc], m3))"
  using assms by (simp add: attach_def allocChan_def setObj_def Let_def registered_def)

lemma attach_ctx_error:
  assumes "CachedData (objs m p) = x # xs" and "ctx 0" and "pick 0"
  shows "attach m ctx pick p tid isNew sid tmo = (ExecErr CtxErr, [], registered m p sid)"
  using assms
  by (simp add: attach_def allocChan_def setObj_def Let_def registered_def selectSend_cases
        makeChan_def)


text \<open>
  Claim C6.  A call with a non-empty resume key that is the key of a record in the
  registry returns \<open>ErrTaskExpired\<close> when the records with that key are past their
  \<open>ExpiresAt\<close>, whatever their status: the expiry test comes before the status test,
  and the record need not have been swept.  (Resume keys are unique to a record unless
  two were made in the same nanosecond; then the hypothesis speaks of both.)
\<close>

theorem ExecuteWithSSE_expired:
  assumes "rk \<noteq> []"
    and "(tid, p) \<in> set (tasks m)" and "ResumeKey (objs m p) = rk"
    and "\<forall>(i, q) \<in> set (tasks m). ResumeKey (objs m q) = rk \<longrightarrow> ExpiresAt (objs m q) < clock 0"
  shows "ExecuteWithSSE m ctx pick clock rk sid tmo = (ExecErr ErrTaskExpired, [], m)"
proof -
  from assms(2,3) have "findByResumeKey m rk \<noteq> None"
    by (auto simp: findByResumeKey_None)
  then obtain i q where f: "findByResumeKey m rk = Some (i, q)" by auto
  from findByResumeKey_Some [OF f] assms(4) have "ExpiresAt (objs m q) < clock 0" by auto
  with assms(1) f show ?thesis by (simp add: ExecuteWithSSE_found)
qed

theorem ExecuteWithSSE_expired_witness:
  "Status (objs st1done 0) = TaskStatusCompleted
   \<and> ExecuteWithSSE st1done ctxLive pickSend (clockAt 3600000000008) ''resume_7'' ''c2'' 0
       = (ExecErr ErrTaskExpired, [], st1done)"
proof -
  have t: "tasks st1done = [(''task_7'', 0)]" by code_simp
  have k: "ResumeKey (objs st1done 0) = ''resume_7''" by code_simp
  have e: "ExpiresAt (objs st1done 0) = 3600000000007" by code_simp
  have s: "Status (objs st1done 0) = TaskStatusCompleted" by code_simp
  have h2: "(''task_7'', 0) \<in> set (tasks st1done)" by (simp add: t)
  have h4: "\<forall>(i, q) \<in> set (tasks st1done). ResumeKey (objs st1done q) = ''resume_7''
              \<longrightarrow> ExpiresAt (objs st1done q) < clockAt 3600000000008 0"
    by (simp add: t e clockAt_def)
  have h1: "''resume_7'' \<noteq> []" by simp
  from ExecuteWithSSE_expired [where clock = "clockAt 3600000000008", OF h1 h2 k h4] s
  show ?thesis by simp
qed




text \<open>The resume of \<open>task_7\<close> in \<open>st4\<close> by a caller whose context is cancelled.\<close>

lemma st4_found: "findByResumeKey st4 ''resume_7'' = Some (''task_7'', 0)"
  by (simp add: findByResumeKey_def st4_facts)

lemma st4_resume_cancelled:
  "ExecuteWithSSE st4 ctxCancelled pickDone (clockAt 9) ''resume_7'' ''c2'' 0
     = (ExecErr CtxErr, [], registered st4 0 ''c2'')"
proof -
  have k: "''resume_7'' \<noteq> []" by simp
  have c: "CachedData (objs st4 0) = 41 # []" by (simp add: st4_facts)
  have x: "ctxCancelled 0" "pickDone 0" by (simp_all add: ctxCancelled_def pickDone_def)
  show ?thesis
    unfolding ExecuteWithSSE_found [OF k st4_found]
    using attach_ctx_error [where ctx = ctxCancelled and pick = pickDone, OF c x]
    by (simp add: st4_facts clockAt_def)
qed

lemma stBoth_facts:
  "map_of (tasks stBoth) ''task_7'' = Some 0"
  "CachedData (objs stBoth 0) = [41]" "Subscribers (objs stBoth 0) = [(''c2'', 3)]"
  "DataChannel (objs stBoth 0) = Some 0"
  "chClosed (chans stBoth 0) = False" "chClosed (chans stBoth 3) = False"
  "chans stBoth 4 = makeChan 100"
  by (simp_all add: stBoth_def st4_resume_cancelled registered_def st4_facts makeChan_def)

text \<open>
  Claim C9.  A resume of a running, unexpired record whose cache is not empty, by a
  caller whose context is cancelled, returns the context's error when the first select
  of the loop takes the cancellation.  By then the new subscriber channel is in the
  record's subscriber map, and the error path leaves it there: no goroutine is started
  that would remove it, the cache is as it was, and the state is not the one before
  the call.
\<close>

theorem ExecuteWithSSE_failed_attach_registers:
  assumes "rk \<noteq> []" and "findByResumeKey m rk = Some (tid, p)"
    and "\<not> ExpiresAt (objs m p) < clock 0" and "Status (objs m p) = TaskStatusRunning"
    and "CachedData (objs m p) \<noteq> []" and "ctx 0" and "pick 0"
  shows "fst (ExecuteWithSSE m ctx pick clock rk sid tmo) = ExecErr CtxErr
     \<and> fst (snd (ExecuteWithSSE m ctx pick clock rk sid tmo)) = []
     \<and> map_of (Subscribers (objs (snd (snd (ExecuteWithSSE m ctx pick clock rk sid tmo))) p)) sid
          = Some (nextChan m)
     \<and> CachedData (objs (snd (snd (ExecuteWithSSE m ctx pick clock rk sid tmo))) p)
          = CachedData (objs m p)
     \<and> snd (snd (ExecuteWithSSE m ctx pick clock rk sid tmo)) \<noteq> m"
proof -
  from assms(5) obtain x xs where c: "CachedData (objs m p) = x # xs"
    by (cases "CachedData (objs m p)") auto
  have e: "ExecuteWithSSE m ctx pick clock rk sid tmo = (ExecErr CtxErr, [], registered m p sid)"
    using assms(1-4) attach_ctx_error [where ctx = ctx and pick = pick, OF c assms(6,7)]
    by (simp add: ExecuteWithSSE_found)
  have "nextChan (registered m p sid) \<noteq> nextChan m" by (simp add: registered_def)
  then have "registered m p sid \<noteq> m" by auto
  then show ?thesis
    by (simp add: e) (simp add: registered_def update_conv')
qed

theorem ExecuteWithSSE_failed_attach_registers_witness:
  "findByResumeKey st4 ''resume_7'' = Some (''task_7'', 0)
   \<and> CachedData (objs st4 0) = [41] \<and> Subscribers (objs st4 0) = []
   \<and> fst (ExecuteWithSSE st4 ctxCancelled pickDone (clockAt 9) ''resume_7'' ''c2'' 0) = ExecErr CtxErr
   \<and> map_of (Subscribers (objs (snd (snd
         (ExecuteWithSSE st4 ctxCancelled pickDone (clockAt 9) ''resume_7'' ''c2'' 0))) 0)) ''c2''
       = Some 3"
proof -
  have f: "findByResumeKey st4 ''resume_7'' = Some (''task_7'', 0)" by (rule st4_found)
  have e: "\<not> ExpiresAt (objs st4 0) < clockAt 9 0" by (simp add: st4_facts clockAt_def)
  have s: "Status (objs st4 0) = TaskStatusRunning" by (simp add: st4_facts)
  have c: "CachedData (objs st4 0) = [41]" by (simp add: st4_facts)
  have c': "CachedData (objs st4 0) \<noteq> []" by (simp add: c)
  have u: "Subscribers (objs st4 0) = []" by (simp add: st4_facts)
  have n: "nextChan st4 = 3" by (simp add: st4_facts)
  have k: "''resume_7'' \<noteq> []" by simp
  have x: "ctxCancelled 0" "pickDone 0" by (simp_all add: ctxCancelled_def pickDone_def)
  from ExecuteWithSSE_failed_attach_registers
         [where ctx = ctxCancelled and pick = pickDone and clock = "clockAt 9" and sid = "''c2''"
            and tmo = 0, OF k f e s c' x] f c u n
  show ?thesis by simp
qed

text \<open>
  Claim C7, at the input where the code breaks it.  In \<open>st4\<close> the cache holds one
  payload and nobody is attached.  The caller \<open>c2\<close> resumes with a cancelled context
  and the select takes the cancellation: the call returns the context's error, and it
  leaves the cache and the subscriber map both non-empty, with no forwarder to take the
  subscriber out again.
\<close>

theorem cache_and_subscribers_both_nonempty:
  "CachedData (objs st4 0) = [41] \<and> Subscribers (objs st4 0) = []
   \<and> fst (ExecuteWithSSE st4 ctxCancelled pickDone (clockAt 9) ''resume_7'' ''c2'' 0) = ExecErr CtxErr
   \<and> fst (snd (ExecuteWithSSE st4 ctxCancelled pickDone (clockAt 9) ''resume_7'' ''c2'' 0)) = []
   \<and> CachedData (objs (snd (snd
        (ExecuteWithSSE st4 ctxCancelled pickDone (clockAt 9) ''resume_7'' ''c2'' 0))) 0) = [41]
   \<and> Subscribers (objs (snd (snd
        (ExecuteWithSSE st4 ctxCancelled pickDone (clockAt 9) ''resume_7'' ''c2'' 0))) 0) = [(''c2'', 3)]"
  by (simp add: st4_resume_cancelled registered_def st4_facts)

text \<open>
  Claim C1, at the input where the code breaks it.  The work function of \<open>task_7\<close>
  panics.  \<open>safego.Go\<close> recovers the panic, so the goroutine ends and the process goes
  on, but \<open>CompleteTask\<close> is not called: the status that \<open>GetTaskInfo\<close> reports is
  still running, the subscriber channel and the output channel are open, and the
  forwarder stays blocked.  When the work function returns an error instead, the record
  is failed and the subscriber channel closed.
\<close>

theorem panic_leaves_task_running:
  "map_option Status (case GetTaskInfo (Go (taskRunner 8 0 ''task_7'' Panicked) st1) ''task_7'' of
                        Inl e \<Rightarrow> None | Inr t \<Rightarrow> Some t) = Some TaskStatusRunning
   \<and> chClosed (chans (Go (taskRunner 8 0 ''task_7'' Panicked) st1) 1) = False
   \<and> chClosed (chans (Go (taskRunner 8 0 ''task_7'' Panicked) st1) 2) = False
   \<and> forwarderStep (Go (taskRunner 8 0 ''task_7'' Panicked) st1) 0 ''c1'' 1 2 False False FwdRecv = None
   \<and> map_option Status (case GetTaskInfo (Go (taskRunner 8 0 ''task_7'' (Returned (Some CtxErr))) st1) ''task_7'' of
                        Inl e \<Rightarrow> None | Inr t \<Rightarrow> Some t) = Some TaskStatusFailed
   \<and> chClosed (chans (Go (taskRunner 8 0 ''task_7'' (Returned (Some CtxErr))) st1) 1) = True"
  by code_simp

subsection \<open>CompleteTask\<close>

lemma CompleteTask_tasks: "tasks (CompleteTask m now tid st) = tasks m"
  by (simp add: CompleteTask_def Let_def split: option.splits)

lemma CompleteTask_status:
  "map_of (tasks m) tid = Some p \<Longrightarrow> Status (objs (CompleteTask m now tid st) p) = st"
  by (simp add: CompleteTask_def Let_def)

lemma safeClose_idem [simp]: "safeClose (safeClose c) = safeClose c"
  by (simp add: safeClose_def chClose_def)

lemma closeAll_conv:
  "closeAll subs ch = (\<lambda>a. if a \<in> snd ` set subs then safeClose (ch a) else ch a)"
proof (induction subs arbitrary: ch)
  case Nil
  then show ?case by (simp add: closeAll_def)
next
  case (Cons e subs)
  obtain k c where e: "e = (k, c)" by (cases e)
  have "closeAll (e # subs) ch = closeAll subs (ch(c := safeClose (ch c)))"
    by (simp add: closeAll_def e)
  then show ?case
    by (auto simp: Cons.IH e fun_eq_iff)
qed

text \<open>One call on a registered task id: what it writes to the record, and the channels
  it closes.\<close>

lemma CompleteTask_effect:
  assumes "map_of (tasks m) tid = Some p"
  shows "Status (objs (CompleteTask m now tid st) p) = st"
    and "CachedData (objs (CompleteTask m now tid st) p) = []"
    and "Subscribers (objs (CompleteTask m now tid st) p) = []"
    and "DataChannel (objs (CompleteTask m now tid st) p) = None"
    and "chans (CompleteTask m now tid st)
           = (\<lambda>a. if DataChannel (objs m p) = Some a \<or> a \<in> snd ` set (Subscribers (objs m p))
                   then safeClose (chans m a) else chans m a)"
  using assms
  by (auto simp: CompleteTask_def Let_def closeAll_conv fun_eq_iff split: option.splits)

text \<open>
  Claim C3, as the code has it.  \<open>CompleteTask\<close> does not look at the current status:
  on a registered task id every call writes the status it is given, empties the buffer,
  closes the data channel and the subscriber channels that the record refers to (a
  channel that is closed already stays as it is) and leaves the record with no data
  channel and no subscriber.  After any non-empty sequence of calls the record's status
  is the one of the last call, so a terminal status is kept by a repeated call with the
  same status and by no other; the buffer is empty, the record has no data channel and
  no subscriber, and of the channels exactly those that the record referred to before
  the first call have been closed, every buffer being what it was.
\<close>

theorem CompleteTask_last_call_wins:
  assumes "map_of (tasks m) tid = Some p" and "calls \<noteq> []"
  shows "Status (objs (completeCalls m tid calls) p) = snd (last calls)
         \<and> tasks (completeCalls m tid calls) = tasks m
         \<and> CachedData (objs (completeCalls m tid calls) p) = []
         \<and> Subscribers (objs (completeCalls m tid calls) p) = []
         \<and> DataChannel (objs (completeCalls m tid calls) p) = None
         \<and> chans (completeCalls m tid calls)
             = (\<lambda>a. if DataChannel (objs m p) = Some a \<or> a \<in> snd ` set (Subscribers (objs m p))
                     then safeClose (chans m a) else chans m a)"
  using assms(2)
proof (induction calls rule: rev_induct)
  case Nil
  then show ?case by simp
next
  case (snoc c cs)
  obtain now st where c: "c = (now, st)" by (cases c)
  let ?m1 = "completeCalls m tid cs"
  have step: "completeCalls m tid (cs @ [c]) = CompleteTask ?m1 now tid st"
    by (simp add: completeCalls_def c)
  show ?case
  proof (cases "cs = []")
    case True
    then have "?m1 = m" by (simp add: completeCalls_def)
    with step c CompleteTask_effect [OF assms(1), of now st] show ?thesis
      by (simp add: CompleteTask_tasks)
  next
    case False
    note ih = snoc.IH [OF False]
    from ih assms(1) have reg: "map_of (tasks ?m1) tid = Some p" by simp
    from ih CompleteTask_effect [OF reg, of now st] step c show ?thesis
      by (simp add: CompleteTask_tasks)
  qed
qed

theorem CompleteTask_last_call_wins_witness:
  "map_of (tasks stBoth) ''task_7'' = Some 0
   \<and> CachedData (objs stBoth 0) = [41] \<and> Subscribers (objs stBoth 0) = [(''c2'', 3)]
   \<and> DataChannel (objs stBoth 0) = Some 0
   \<and> chClosed (chans stBoth 0) = False \<and> chClosed (chans stBoth 3) = False
   \<and> Status (objs (completeCalls stBoth ''task_7'' [(10, TaskStatusCompleted), (11, TaskStatusFailed)]) 0)
       = TaskStatusFailed
   \<and> CachedData (objs (completeCalls stBoth ''task_7'' [(10, TaskStatusCompleted), (11, TaskStatusFailed)]) 0) = []
   \<and> Subscribers (objs (completeCalls stBoth ''task_7'' [(10, TaskStatusCompleted), (11, TaskStatusFailed)]) 0) = []
   \<and> DataChannel (objs (completeCalls stBoth ''task_7'' [(10, TaskStatusCompleted), (11, TaskStatusFailed)]) 0) = None
   \<and> chClosed (chans (completeCalls stBoth ''task_7'' [(10, TaskStatusCompleted), (11, TaskStatusFailed)]) 0)
   \<and> chClosed (chans (completeCalls stBoth ''task_7'' [(10, TaskStatusCompleted), (11, TaskStatusFailed)]) 3)
   \<and> chans (completeCalls stBoth ''task_7'' [(10, TaskStatusCompleted), (11, TaskStatusFailed)]) 4
       = chans stBoth 4"
proof -
  have h1: "map_of (tasks stBoth) ''task_7'' = Some 0" by (simp add: stBoth_facts)
  have c: "CachedData (objs stBoth 0) = [41]" by (simp add: stBoth_facts)
  have s: "Subscribers (objs stBoth 0) = [(''c2'', 3)]" by (simp add: stBoth_facts)
  have d: "DataChannel (objs stBoth 0) = Some 0" by (simp add: stBoth_facts)
  have o: "chClosed (chans stBoth 0) = False" "chClosed (chans stBoth 3) = False"
    by (simp_all add: stBoth_facts)
  from CompleteTask_last_call_wins [OF h1, of "[(10, TaskStatusCompleted), (11, TaskStatusFailed)]"]
    h1 c s d o
  show ?thesis by (simp add: safeClose_def chClose_def)
qed

text \<open>The claim as stated fails: the task \<open>task_7\<close> is completed, and a second call
  with \<open>failed\<close> replaces the terminal status \<open>completed\<close>.\<close>

theorem CompleteTask_overwrites_terminal:
  "Status (objs (CompleteTask st1 8 ''task_7'' TaskStatusCompleted) 0) = TaskStatusCompleted
   \<and> Status (objs (CompleteTask (CompleteTask st1 8 ''task_7'' TaskStatusCompleted)
                      9 ''task_7'' TaskStatusFailed) 0) = TaskStatusFailed
   \<and> TaskStatusCompleted \<noteq> TaskStatusRunning \<and> TaskStatusFailed \<noteq> TaskStatusCompleted"
  by code_simp

subsection \<open>The forwarder and the caller's context\<close>

lemma forwarderExit_Go:
  "Go (\<lambda>s. forwarderExit s p sid sc oc) m =
     (let m1 = (case map_of (Subscribers (objs m p)) sid of
                  None \<Rightarrow> m
                | Some c \<Rightarrow>
                    setChan (setObj m p ((objs m p)\<lparr>Subscribers := AList.delete sid (Subscribers (objs m p))\<rparr>))
                      sc (safeClose (chans m sc)))
      in if chClosed (chans m1 oc) then m1 else setChan m1 oc ((chans m1 oc)\<lparr>chClosed := True\<rparr>))"
  by (simp add: Go_def Recovery_def forwarderExit_def chClose_def Let_def)

lemma safeClose_closed [simp]: "chClosed (safeClose c)"
  by (simp add: safeClose_def chClose_def)

lemma safeClose_buf [simp]: "chBuf (safeClose c) = chBuf c"
  by (simp add: safeClose_def chClose_def)

lemma forwarderExit_effect:
  "map_of (Subscribers (objs (Go (\<lambda>s. forwarderExit s p sid sc oc) m) p)) sid = None
   \<and> chClosed (chans (Go (\<lambda>s. forwarderExit s p sid sc oc) m) oc)
   \<and> asyncDone (Go (\<lambda>s. forwarderExit s p sid sc oc) m) = asyncDone m
   \<and> tasks (Go (\<lambda>s. forwarderExit s p sid sc oc) m) = tasks m
   \<and> (\<forall>tid. GetTaskInfo (Go (\<lambda>s. forwarderExit s p sid sc oc) m) tid = GetTaskInfo m tid)"
  by (auto simp: forwarderExit_Go Let_def setChan_def setObj_def GetTaskInfo_def delete_conv'
           split: option.splits)

lemma forwarderExit_closes_registered:
  "map_of (Subscribers (objs m p)) sid = Some c \<Longrightarrow>
   chClosed (chans (Go (\<lambda>s. forwarderExit s p sid sc oc) m) sc)"
  by (auto simp: forwarderExit_Go Let_def setChan_def setObj_def)

lemma forwarderStep_cancelled:
  "atSelect pc \<Longrightarrow>
   forwarderStep m p sid sc oc True True pc = Some (FwdExit, Go (\<lambda>s. forwarderExit s p sid sc oc) m)"
  by (cases pc rule: atSelect.cases) (simp_all add: forwardSend_def)

lemma forwarderStep_cancelled_not_blocked:
  "pc \<noteq> FwdExit \<Longrightarrow> forwarderStep m p sid sc oc True pick pc \<noteq> None"
  by (cases pc rule: atSelect.cases) (auto simp: forwardSend_def split: option.splits list.splits)

lemma GetTaskInfo_setChan [simp]: "GetTaskInfo (setChan m a c) tid = GetTaskInfo m tid"
  by (simp add: GetTaskInfo_def setChan_def split: option.splits)

lemma frame_setChan [simp]:
  "asyncDone (setChan m a c) = asyncDone m" "tasks (setChan m a c) = tasks m"
  by (simp_all add: setChan_def)

lemma forwardSend_frame:
  assumes "forwardSend m p sid sc oc cd pk d nxt = Some (pc', m')"
  shows "asyncDone m' = asyncDone m \<and> tasks m' = tasks m
     \<and> (\<forall>tid. GetTaskInfo m' tid = GetTaskInfo m tid)"
  using assms forwarderExit_effect [of p sid sc oc m]
  by (auto simp: forwardSend_def chSend_def split: if_splits)

text \<open>No step of the forwarder touches an independent context, the registry or what
  \<open>GetTaskInfo\<close> reports.\<close>

lemma forwarderStep_frame:
  assumes "forwarderStep m p sid sc oc cd pk pc = Some (pc', m')"
  shows "asyncDone m' = asyncDone m \<and> tasks m' = tasks m
     \<and> (\<forall>tid. GetTaskInfo m' tid = GetTaskInfo m tid)"
proof (cases pc)
  case FwdStart
  with assms show ?thesis by simp
next
  case (FwdReplay cs)
  with assms show ?thesis
    by (cases cs) (use forwardSend_frame in \<open>fastforce+\<close>)
next
  case FwdRecv
  with assms forwarderExit_effect [of p sid sc oc m] show ?thesis
    by (auto split: if_splits list.splits)
next
  case (FwdSend d)
  with assms show ?thesis using forwardSend_frame by fastforce
next
  case FwdExit
  with assms show ?thesis by simp
qed

text \<open>
  Claim C8 fails in the code.  The forwarder's part holds: the lemmas above show that
  with the context cancelled its step ends the session and touches neither the
  independent context nor what \<open>GetTaskInfo\<close> reports.  But the closure
  \<open>updateProgress\<close> that the task runner's work function calls is bound to the
  context of the caller that created the task, so the cancellation reaches the task
  runner.  In \<open>st1\<close> the caller \<open>c1\<close> has created \<open>task_7\<close>; its context is
  cancelled and the forwarder's select takes the cancellation, which gives \<open>st2\<close>.
  There the independent context is not cancelled and \<open>GetTaskInfo\<close> reports
  \<open>running\<close>.  The work function now reports the payload 41.  Had the context of
  \<open>c1\<close> not been cancelled, \<open>updateProgress\<close> would return \<open>nil\<close> and the payload
  would be in the data channel.  With the context cancelled and the select taking
  \<open>ctx.Done()\<close>, \<open>updateProgress\<close> returns the context's error, and the payload is
  neither in the data channel nor in the buffer.  A work function that returns the
  error of \<open>updateProgress\<close> ends there, and the task runner completes the task as
  \<open>failed\<close>: \<open>GetTaskInfo\<close> reports \<open>failed\<close>, where without the cancellation the
  same work function leaves the task \<open>completed\<close>.
\<close>

theorem caller_cancel_reaches_task_runner:
  "forwarderStep st1 0 ''c1'' 1 2 True True FwdRecv = Some (FwdExit, st2)
   \<and> asyncDone st2 0 = False
   \<and> map_option Status (case GetTaskInfo st2 ''task_7'' of Inl e \<Rightarrow> None | Inr t \<Rightarrow> Some t)
        = Some TaskStatusRunning
   \<and> fst (updateProgress st2 False True 8 ''task_7'' 41) = Returned None
   \<and> chBuf (chans (snd (updateProgress st2 False True 8 ''task_7'' 41)) 0) = [41]
   \<and> fst (updateProgress st2 True True 8 ''task_7'' 41) = Returned (Some CtxErr)
   \<and> chBuf (chans (snd (updateProgress st2 True True 8 ''task_7'' 41)) 0) = []
   \<and> CachedData (objs (snd (updateProgress st2 True True 8 ''task_7'' 41)) 0) = []
   \<and> map_option Status
        (case GetTaskInfo (reportThenReturn st2 True True 8 0 ''task_7'' 41) ''task_7'' of
           Inl e \<Rightarrow> None | Inr t \<Rightarrow> Some t) = Some TaskStatusFailed
   \<and> map_option Status
        (case GetTaskInfo (reportThenReturn st2 False True 8 0 ''task_7'' 41) ''task_7'' of
           Inl e \<Rightarrow> None | Inr t \<Rightarrow> Some t) = Some TaskStatusCompleted"
proof -
  have a: "forwarderStep st1 0 ''c1'' 1 2 True True FwdRecv = Some (FwdExit, st2)"
    by (simp add: st2_def)
  have b: "asyncDone st2 0 = False" by code_simp
  have c: "map_option Status (case GetTaskInfo st2 ''task_7'' of Inl e \<Rightarrow> None | Inr t \<Rightarrow> Some t)
        = Some TaskStatusRunning" by code_simp
  have d: "fst (updateProgress st2 False True 8 ''task_7'' 41) = Returned None" by code_simp
  have e: "chBuf (chans (snd (updateProgress st2 False True 8 ''task_7'' 41)) 0) = [41]" by code_simp
  have f: "fst (updateProgress st2 True True 8 ''task_7'' 41) = Returned (Some CtxErr)" by code_simp
  have g: "chBuf (chans (snd (updateProgress st2 True True 8 ''task_7'' 41)) 0) = []" by code_simp
  have h: "CachedData (objs (snd (updateProgress st2 True True 8 ''task_7'' 41)) 0) = []" by code_simp
  have i: "map_option Status
        (case GetTaskInfo (reportThenReturn st2 True True 8 0 ''task_7'' 41) ''task_7'' of
           Inl e \<Rightarrow> None | Inr t \<Rightarrow> Some t) = Some TaskStatusFailed" by code_simp
  have j: "map_option Status
        (case GetTaskInfo (reportThenReturn st2 False True 8 0 ''task_7'' 41) ''task_7'' of
           Inl e \<Rightarrow> None | Inr t \<Rightarrow> Some t) = Some TaskStatusCompleted" by code_simp
  from a b c d e f g h i j show ?thesis by blast
qed

subsection \<open>Resume: the cached payloads go to the new subscriber channel\<close>

lemma setChan_same [simp]: "setChan (setChan m a c) a c' = setChan m a c'"
  by (simp add: setChan_def)

lemma chans_setChan [simp]: "chans (setChan m a c) = (chans m)(a := c)"
  by (simp add: setChan_def)

text \<open>With a context that is not cancelled the loop sends until the channel is full
  and drops the rest.\<close>

lemma flushCached_live:
  assumes "\<forall>i. \<not> ctx i" and "\<not> chClosed (chans m a)"
  shows "flushCached m a ctx pick k xs =
     (Returned None,
      setChan m a ((chans m a)\<lparr>chBuf := chBuf (chans m a)
          @ take (chCap (chans m a) - length (chBuf (chans m a))) xs\<rparr>))"
  using assms(2)
proof (induction xs arbitrary: m k)
  case Nil
  then show ?case by (simp add: setChan_def)
next
  case (Cons x xs)
  show ?case
  proof (cases "length (chBuf (chans m a)) < chCap (chans m a)")
    case True
    let ?m' = "setChan m a ((chans m a)\<lparr>chBuf := chBuf (chans m a) @ [x]\<rparr>)"
    have s: "selectSend m (Some a) x (ctx k) (pick k) = Sent ?m'"
      using True Cons.prems assms(1) by (simp add: selectSend_cases)
    have c: "\<not> chClosed (chans ?m' a)" using Cons.prems by simp
    from True obtain n where n: "chCap (chans m a) - length (chBuf (chans m a)) = Suc n"
      by (cases "chCap (chans m a) - length (chBuf (chans m a))") auto
    then have n': "chCap (chans m a) - Suc (length (chBuf (chans m a))) = n" by simp
    show ?thesis
      by (simp add: s Cons.IH [OF c] n n')
  next
    case False
    have s: "selectSend m (Some a) x (ctx k) (pick k) = Default"
      using False Cons.prems assms(1) by (simp add: selectSend_cases)
    from False have z: "chCap (chans m a) - length (chBuf (chans m a)) = 0" by simp
    show ?thesis
      by (simp add: s Cons.IH [OF Cons.prems] z)
  qed
qed

lemma attach_cache:
  assumes "CachedData (objs m p) \<noteq> []"
  shows "attach m ctx pick p tid False sid tmo =
    (case flushCached (registered m p sid) (nextChan m) ctx pick 0 (CachedData (objs m p)) of
       (Returned None, m') \<Rightarrow>
         (ExecOk (Suc (nextChan m)) tid, [Forwarder p sid (nextChan m) (Suc (nextChan m))],
          setObj m' p ((objs m' p)\<lparr>CachedData := []\<rparr>))
     | (Returned (Some e), m') \<Rightarrow> (ExecErr e, [], m')
     | (Panicked, m') \<Rightarrow> (ExecPanic, [], m'))"
proof -
  obtain r m' where fl:
    "flushCached (registered m p sid) (nextChan m) ctx pick 0 (CachedData (objs m p)) = (r, m')"
    by (cases "flushCached (registered m p sid) (nextChan m) ctx pick 0 (CachedData (objs m p))")
  note fl' = fl [unfolded registered_def]
  show ?thesis
  proof (cases r)
    case (Returned eo)
    then show ?thesis
      using assms fl fl'
      by (cases eo) (simp_all add: attach_def allocChan_def setObj_def Let_def)
  next
    case Panicked
    then show ?thesis
      using assms fl fl'
      by (simp add: attach_def allocChan_def setObj_def Let_def)
  qed
qed

lemma attach_live:
  assumes "\<forall>i. \<not> ctx i"
  shows "fst (attach m ctx pick p tid False sid tmo) = ExecOk (Suc (nextChan m)) tid
     \<and> fst (snd (attach m ctx pick p tid False sid tmo))
          = [Forwarder p sid (nextChan m) (Suc (nextChan m))]
     \<and> chans (snd (snd (attach m ctx pick p tid False sid tmo)))
          = (chans m)(nextChan m := \<lparr>chBuf = take 100 (CachedData (objs m p)), chCap = 100, chClosed = False\<rparr>,
                      Suc (nextChan m) := makeChan 100)
     \<and> objs (snd (snd (attach m ctx pick p tid False sid tmo)))
          = (objs m)(p := (objs m p)\<lparr>Subscribers :=
                 AList.update sid (nextChan m) (Subscribers (objs m p)), CachedData := []\<rparr>)
     \<and> tasks (snd (snd (attach m ctx pick p tid False sid tmo))) = tasks m
     \<and> asyncDone (snd (snd (attach m ctx pick p tid False sid tmo))) = asyncDone m"
proof (cases "CachedData (objs m p) = []")
  case True
  then have e: "(objs m p)\<lparr>Subscribers := AList.update sid (nextChan m) (Subscribers (objs m p)),
              CachedData := []\<rparr>
        = (objs m p)\<lparr>Subscribers := AList.update sid (nextChan m) (Subscribers (objs m p))\<rparr>"
    by (cases "objs m p") simp
  show ?thesis
    using True by (simp add: attach_no_cache Let_def registered_def makeChan_def e)
next
  case False
  let ?m3 = "registered m p sid"
  have c: "\<not> chClosed (chans ?m3 (nextChan m))" by (simp add: registered_def makeChan_def)
  have f: "flushCached ?m3 (nextChan m) ctx pick 0 (CachedData (objs m p)) =
     (Returned None,
      setChan ?m3 (nextChan m) ((chans ?m3 (nextChan m))\<lparr>chBuf := chBuf (chans ?m3 (nextChan m))
          @ take (chCap (chans ?m3 (nextChan m)) - length (chBuf (chans ?m3 (nextChan m))))
               (CachedData (objs m p))\<rparr>))"
    by (rule flushCached_live [OF assms c])
  show ?thesis
    unfolding attach_cache [OF False] f
    by (simp add: setObj_def setChan_def registered_def makeChan_def) (simp add: fun_eq_iff)
qed

subsection \<open>A caller that keeps reading receives the subscriber channel in order\<close>

lemma runAll_append:
  "runAll p sid sc oc (es @ fs) r = runAll p sid sc oc fs (runAll p sid sc oc es r)"
  by (simp add: runAll_def)

lemma runAll_Nil [simp]: "runAll p sid sc oc [] r = r"
  by (simp add: runAll_def)

lemma round_delivers:
  assumes rd: "ready r sc oc" and buf: "chBuf (chans (rm r) sc) = d # ds"
  shows "ready (runAll p sid sc oc round r) sc oc
     \<and> chBuf (chans (rm (runAll p sid sc oc round r)) sc) = ds
     \<and> chClosed (chans (rm (runAll p sid sc oc round r)) sc) = chClosed (chans (rm r) sc)
     \<and> received (runAll p sid sc oc round r) = received r @ [d]"
  using assms
  by (simp add: ready_def round_def runAll_def recvReady_def forwardSend_def sendReady_def
        chSend_def consumerRecv_def setChan_def)

lemma round_idle:
  assumes rd: "ready r sc oc" and buf: "chBuf (chans (rm r) sc) = []"
    and op: "chClosed (chans (rm r) sc) = False"
  shows "runAll p sid sc oc round r = r"
  using assms
  by (simp add: ready_def round_def runAll_def recvReady_def consumerRecv_def)

lemma rounds_deliver:
  assumes "ready r sc oc" and "chBuf (chans (rm r) sc) = ys"
  shows "ready (runAll p sid sc oc (concat (replicate (length ys) round)) r) sc oc
     \<and> chBuf (chans (rm (runAll p sid sc oc (concat (replicate (length ys) round)) r)) sc) = []
     \<and> chClosed (chans (rm (runAll p sid sc oc (concat (replicate (length ys) round)) r)) sc)
          = chClosed (chans (rm r) sc)
     \<and> received (runAll p sid sc oc (concat (replicate (length ys) round)) r) = received r @ ys"
  using assms
proof (induction ys arbitrary: r)
  case Nil
  then show ?case by simp
next
  case (Cons d ds)
  note s = round_delivers [OF Cons.prems, of p sid]
  from s have rd: "ready (runAll p sid sc oc round r) sc oc"
    and b: "chBuf (chans (rm (runAll p sid sc oc round r)) sc) = ds"
    by simp_all
  from Cons.IH [OF rd b] s show ?case
    by (simp add: runAll_append)
qed

lemma rounds_idle:
  assumes "ready r sc oc" and "chBuf (chans (rm r) sc) = []"
    and "chClosed (chans (rm r) sc) = False"
  shows "runAll p sid sc oc (concat (replicate k round)) r = r"
  using assms
  by (induction k) (simp_all add: runAll_append round_idle)

lemma start_ready:
  assumes "CachedData (objs m p) = []"
  shows "runAll p sid sc oc [Forward False False, Forward False False] (startRun m)
           = \<lparr>rm = m, rpc = FwdRecv, rlpc = LWait, received = []\<rparr>"
  using assms by (simp add: runAll_def startRun_def startRunAt_def)

lemma deliverSchedule_delivers:
  assumes c: "CachedData (objs m p) = []" and ne: "sc \<noteq> oc"
    and o: "chans m oc = makeChan 100"
    and s: "chBuf (chans m sc) = ys" "chClosed (chans m sc) = False"
  shows "received (runAll p sid sc oc (deliverSchedule (length ys + k)) (startRun m)) = ys"
proof -
  let ?r0 = "\<lparr>rm = m, rpc = FwdRecv, rlpc = LWait, received = []\<rparr>"
  let ?r1 = "runAll p sid sc oc (concat (replicate (length ys) round)) ?r0"
  have rd: "ready ?r0 sc oc" using ne o by (simp add: ready_def makeChan_def)
  have b: "chBuf (chans (rm ?r0) sc) = ys" using s by simp
  note d = rounds_deliver [OF rd b, of p sid]
  from d s have i: "runAll p sid sc oc (concat (replicate k round)) ?r1 = ?r1"
    by (intro rounds_idle) simp_all
  have "runAll p sid sc oc (deliverSchedule (length ys + k)) (startRun m)
          = runAll p sid sc oc (concat (replicate k round)) ?r1"
    using start_ready [OF c, of sid sc oc]
      runAll_append [of p sid sc oc "[Forward False False, Forward False False]"
         "concat (replicate (length ys + k) round)" "startRun m"]
    by (simp add: deliverSchedule_def replicate_add runAll_append)
  with i d show ?thesis by simp
qed

text \<open>The listener stores the payload \<open>d\<close> that it holds after the attach has
  emptied the buffer and put \<open>x\<close> into the subscriber channel; then the forwarder runs
  and the caller receives twice.\<close>

lemma race_reorders:
  assumes "CachedData (objs m p) = []" and "sc \<noteq> oc"
    and "chans m sc = \<lparr>chBuf = [x], chCap = 100, chClosed = False\<rparr>"
    and "chans m oc = makeChan 100"
  shows "received (runAll p sid sc oc raceSchedule (startRunAt m (LCache d))) = [d, x]"
    and "CachedData (objs (rm (runAll p sid sc oc raceSchedule (startRunAt m (LCache d)))) p) = [d]"
    and "Subscribers (objs (rm (runAll p sid sc oc raceSchedule (startRunAt m (LCache d)))) p)
           = Subscribers (objs m p)"
  using assms
  by (simp_all add: runAll_def raceSchedule_def startRunAt_def forwardSend_def sendReady_def
        chSend_def recvReady_def consumerRecv_def setChan_def setObj_def makeChan_def)

subsection \<open>Resume ordering\<close>

text \<open>
  Claim C4 fails in the code, in two ways.

  More than 100 payloads.  In \<open>st101\<close> the buffer holds the payloads 0 to 100, sent
  while nobody was attached.  The resume succeeds, but the loop drops the payload for
  which the new subscriber channel has no room and then empties the buffer: the
  subscriber channel holds 0 to 99, the buffer and the output channel are empty, and a
  caller that keeps reading receives 0 to 99, not the payload 100.

  An attach between two steps of the listener.  In \<open>st4\<close> the buffer holds the payload
  41 and nobody is attached.  The work function reports 42; the listener takes 42 from
  the data channel and finds the subscriber map empty.  Before the listener has locked
  the record to append 42 to the buffer, the caller \<open>c2\<close> resumes: the call puts 41
  into the new subscriber channel and empties the buffer.  The listener then appends 42
  to the buffer, the forwarder of \<open>c2\<close> copies the buffer and sends the copy first, and
  \<open>c2\<close> receives 42 before 41.  The buffer still holds 42 while \<open>c2\<close> is attached.
\<close>

theorem resume_drops_and_reorders:
  "CachedData (objs st101 0) = [0..<101]
   \<and> fst (ExecuteWithSSE st101 ctxLive pickSend (clockAt 9) ''resume_7'' ''c2'' 0) = ExecOk 4 ''task_7''
   \<and> chBuf (chans st102 3) = [0..<100]
   \<and> CachedData (objs st102 0) = []
   \<and> chBuf (chans st102 4) = []
   \<and> received (runAll 0 ''c2'' 3 4 (deliverSchedule 101) (startRun st102)) = [0..<100]
   \<and> CachedData (objs st4 0) = [41] \<and> Subscribers (objs st4 0) = []
   \<and> fst (UpdateProgress st4 False False 9 ''task_7'' 42) = Returned None
   \<and> listenerSteps 2 stB1 0 LWait = (LCache 42, stB2)
   \<and> CachedData (objs stB2 0) = [41] \<and> Subscribers (objs stB2 0) = []
   \<and> fst (ExecuteWithSSE stB2 ctxLive pickSend (clockAt 10) ''resume_7'' ''c2'' 0) = ExecOk 4 ''task_7''
   \<and> chBuf (chans stB3 3) = [41] \<and> CachedData (objs stB3 0) = []
   \<and> Subscribers (objs stB3 0) = [(''c2'', 3)]
   \<and> received raceRun = [42, 41]
   \<and> CachedData (objs (rm raceRun) 0) = [42]
   \<and> Subscribers (objs (rm raceRun) 0) = [(''c2'', 3)]"
proof -
  note b2 = st2_buffering
  have c2: "CachedData (objs st2 0) = []" by (simp add: st2_facts)
  have t2: "tasks st2 = [(''task_7'', 0)]" by (simp add: st2_facts)
  have n2: "nextChan st2 = 3" by (simp add: st2_facts)
  have k2: "ResumeKey (objs st2 0) = ''resume_7''" by (simp add: st2_facts)
  have e2: "ExpiresAt (objs st2 0) = 3600000000007" by (simp add: st2_facts)
  note fb = feeds_buffering [OF b2, of "[0..<101]", folded st101_def]
  from fb c2 have c: "CachedData (objs st101 0) = [0..<101]" by simp
  from fb t2 have t: "tasks st101 = [(''task_7'', 0)]" by simp
  from fb n2 have n: "nextChan st101 = 3" by simp
  from fb k2 have k: "ResumeKey (objs st101 0) = ''resume_7''" by simp
  from fb e2 have e: "ExpiresAt (objs st101 0) = 3600000000007" by simp
  from fb have s: "Status (objs st101 0) = TaskStatusRunning" by (simp add: buffering_def)
  have f: "findByResumeKey st101 ''resume_7'' = Some (''task_7'', 0)"
    by (simp add: findByResumeKey_def t k)
  have x: "\<forall>i. \<not> ctxLive i" by (simp add: ctxLive_def)
  have ex: "ExecuteWithSSE st101 ctxLive pickSend (clockAt 9) ''resume_7'' ''c2'' 0
              = attach st101 ctxLive pickSend 0 ''task_7'' False ''c2'' 0"
    using f e s by (simp add: ExecuteWithSSE_found clockAt_def)
  note a = attach_live [OF x, of st101 pickSend 0 "''task_7''" "''c2''" 0, folded ex, folded st102_def]
  from a n have r: "fst (ExecuteWithSSE st101 ctxLive pickSend (clockAt 9) ''resume_7'' ''c2'' 0)
       = ExecOk 4 ''task_7''" by simp
  from a n c have ch: "chans st102 = (chans st101)(3 := \<lparr>chBuf = [0..<100], chCap = 100, chClosed = False\<rparr>,
       4 := makeChan 100)"
    by (simp add: eval_nat_numeral)
  from a have ob: "CachedData (objs st102 0) = []" by simp
  have d: "received (runAll 0 ''c2'' 3 4 (deliverSchedule (length [0..<100::nat] + 1))
              (startRun st102)) = [0..<100]"
    by (rule deliverSchedule_delivers) (simp_all add: ch ob)
  from c r ch ob d have over:
    "CachedData (objs st101 0) = [0..<101]
     \<and> fst (ExecuteWithSSE st101 ctxLive pickSend (clockAt 9) ''resume_7'' ''c2'' 0) = ExecOk 4 ''task_7''
     \<and> chBuf (chans st102 3) = [0..<100]
     \<and> CachedData (objs st102 0) = []
     \<and> chBuf (chans st102 4) = []
     \<and> received (runAll 0 ''c2'' 3 4 (deliverSchedule 101) (startRun st102)) = [0..<100]"
    by (simp add: makeChan_def)
  have r1: "CachedData (objs st4 0) = [41]" by (simp add: st4_facts)
  have r2: "Subscribers (objs st4 0) = []" by (simp add: st4_facts)
  note rt = report_taken [OF st4_buffering, of 9 42, folded stB1_def, folded stB2_def]
  have r3: "fst (UpdateProgress st4 False False 9 ''task_7'' 42) = Returned None"
    by (rule report_taken(1) [OF st4_buffering])
  have r5: "listenerSteps 2 stB1 0 LWait = (LCache 42, stB2)"
    using rt(2) by (simp add: stB2_def prod_eq_iff)
  have r6: "CachedData (objs stB2 0) = [41]" using rt(4) by (simp add: st4_facts)
  have r7: "Subscribers (objs stB2 0) = []" using rt(3) by (simp add: buffering_def)
  have fB: "findByResumeKey stB2 ''resume_7'' = Some (''task_7'', 0)"
    using rt(5,7) by (simp add: findByResumeKey_def st4_facts)
  have sB: "Status (objs stB2 0) = TaskStatusRunning" using rt(3) by (simp add: buffering_def)
  have eB: "ExpiresAt (objs stB2 0) = 3600000000007" using rt(8) by (simp add: st4_facts)
  have nB: "nextChan stB2 = 3" using rt(6) by (simp add: st4_facts)
  have exB: "ExecuteWithSSE stB2 ctxLive pickSend (clockAt 10) ''resume_7'' ''c2'' 0
              = attach stB2 ctxLive pickSend 0 ''task_7'' False ''c2'' 0"
    using fB eB sB by (simp add: ExecuteWithSSE_found clockAt_def)
  note aB = attach_live [OF x, of stB2 pickSend 0 "''task_7''" "''c2''" 0, folded exB, folded stB3_def]
  from aB nB have r8: "fst (ExecuteWithSSE stB2 ctxLive pickSend (clockAt 10) ''resume_7'' ''c2'' 0)
       = ExecOk 4 ''task_7''" by simp
  from aB nB r6 have chB: "chans stB3 = (chans stB2)(3 := \<lparr>chBuf = [41], chCap = 100, chClosed = False\<rparr>,
       4 := makeChan 100)"
    by (simp add: eval_nat_numeral)
  from aB nB r7 have obB: "objs stB3 = (objs stB2)(0 := (objs stB2 0)\<lparr>Subscribers := [(''c2'', 3)],
       CachedData := []\<rparr>)"
    by simp
  have r9: "chBuf (chans stB3 3) = [41]" by (simp add: chB)
  have r10: "CachedData (objs stB3 0) = []" by (simp add: obB)
  have r11: "Subscribers (objs stB3 0) = [(''c2'', 3)]" by (simp add: obB)
  have h1: "(3::nat) \<noteq> 4" by simp
  have h2: "chans stB3 3 = \<lparr>chBuf = [41], chCap = 100, chClosed = False\<rparr>" by (simp add: chB)
  have h3: "chans stB3 4 = makeChan 100" by (simp add: chB)
  note rr = race_reorders [OF r10 h1 h2 h3, of "''c2''" 42, folded raceRun_def]
  have r12: "received raceRun = [42, 41]" by (rule rr(1))
  have r13: "CachedData (objs (rm raceRun) 0) = [42]" by (rule rr(2))
  have r14: "Subscribers (objs (rm raceRun) 0) = [(''c2'', 3)]" using rr(3) r11 by simp
  from over r1 r2 r3 r5 r6 r7 r8 r9 r10 r11 r12 r13 r14 show ?thesis by blast
qed

end
